theory Spec2Isabelle
  imports Complex_Main "HOL-Library.Sublist"
begin

section \<open>JavaScript values used by the attempt flow\<close>

text \<open>
  Strings are lists of code units, restricted here to the ASCII range. Numbers that carry
  marks and scores are exact rationals; instants and durations are integers (milliseconds
  and seconds). A value that may be \<^verbatim>\<open>null\<close> or \<^verbatim>\<open>undefined\<close>, where the source tells the two
  apart, is a \<open>nullable\<close>; an optional field is an \<open>option\<close>.
\<close>

datatype 'a nullable = Undefined | Null | Val 'a

text \<open>The white space and line terminators of ECMAScript within ASCII:
  TAB, LF, VT, FF, CR and SP.\<close>

definition isWhiteSpace :: "char \<Rightarrow> bool" where
  "isWhiteSpace c = (c \<in> set [CHR 0x09, CHR 0x0A, CHR 0x0B, CHR 0x0C, CHR 0x0D, CHR 0x20])"

text \<open>\<^verbatim>\<open>String.prototype.trim\<close>: white space is removed at both ends.\<close>

definition trim :: "string \<Rightarrow> string" where
  "trim s = rev (dropWhile isWhiteSpace (rev (dropWhile isWhiteSpace s)))"

text \<open>\<^verbatim>\<open>String(v)\<close> on a value that is a string, \<^verbatim>\<open>null\<close> or \<^verbatim>\<open>undefined\<close>.\<close>

fun String_of :: "string nullable \<Rightarrow> string" where
  "String_of (Val s) = s"
| "String_of Null = ''null''"
| "String_of Undefined = ''undefined''"

text \<open>
  \<^verbatim>\<open>safeNumber(v, fallback)\<close>: \<^verbatim>\<open>Number(v)\<close> when it is finite, the fallback otherwise.
  \<open>None\<close> stands for every value whose \<^verbatim>\<open>Number\<close> is not finite (\<^verbatim>\<open>undefined\<close>, \<^verbatim>\<open>NaN\<close>,
  an infinity).
\<close>

definition safeNumber :: "'a option \<Rightarrow> 'a \<Rightarrow> 'a" where
  "safeNumber v fallback = (case v of Some n \<Rightarrow> n | None \<Rightarrow> fallback)"

section \<open>Questions, responses and scoring\<close>

datatype QuestionType = Mcq | Integer

record Marks =
  correct :: rat
  incorrect :: rat

record AttemptQuestion =
  q_id :: string
  sectionId :: string
  q_type :: QuestionType
  stem :: string
  options :: "(string \<times> string) list"
  correctAnswer :: "string option"
  explanation :: "string option"
  marks :: Marks
  passage :: "(string \<times> string) option"

record AttemptResponse =
  answer :: "string nullable"
  markedForReview :: bool
  visited :: bool
  answered :: bool

type_synonym Responses = "string \<rightharpoonup> AttemptResponse"

record Tally =
  score :: rat
  maxScore :: rat
  correctCount :: nat
  incorrectCount :: nat
  unansweredCount :: nat

record ScoreResult = Tally +
  accuracy :: rat

text \<open>\<^verbatim>\<open>responses[q.id]?.answer\<close>: a missing response reads as \<^verbatim>\<open>undefined\<close>.\<close>

definition answerOf :: "Responses \<Rightarrow> string \<Rightarrow> string nullable" where
  "answerOf responses qid = (case responses qid of None \<Rightarrow> Undefined | Some r \<Rightarrow> answer r)"

text \<open>\<^verbatim>\<open>q.correctAnswer ?? ""\<close>\<close>

definition canonicalAnswer :: "AttemptQuestion \<Rightarrow> string" where
  "canonicalAnswer q = (case correctAnswer q of None \<Rightarrow> [] | Some s \<Rightarrow> s)"

text \<open>One pass of the loop of \<^verbatim>\<open>computeScore\<close> over a question.\<close>

definition scoreStep :: "Responses \<Rightarrow> Tally \<Rightarrow> AttemptQuestion \<Rightarrow> Tally" where
  "scoreStep responses t q =
    (let t1 = t\<lparr>maxScore := maxScore t + safeNumber (Some (correct (marks q))) 0\<rparr>;
         ans = answerOf responses (q_id q)
     in if ans = Null \<or> ans = Undefined \<or> trim (String_of ans) = []
        then t1\<lparr>unansweredCount := unansweredCount t1 + 1\<rparr>
        else if q_type q = Integer
        then (if trim (String_of ans) = trim (canonicalAnswer q)
              then t1\<lparr>score := score t1 + safeNumber (Some (correct (marks q))) 0,
                      correctCount := correctCount t1 + 1\<rparr>
              else t1\<lparr>score := score t1 - safeNumber (Some (incorrect (marks q))) 0,
                      incorrectCount := incorrectCount t1 + 1\<rparr>)
        else (if String_of ans = canonicalAnswer q
              then t1\<lparr>score := score t1 + safeNumber (Some (correct (marks q))) 0,
                      correctCount := correctCount t1 + 1\<rparr>
              else t1\<lparr>score := score t1 - safeNumber (Some (incorrect (marks q))) 0,
                      incorrectCount := incorrectCount t1 + 1\<rparr>))"

definition tally0 :: Tally where
  "tally0 = \<lparr>score = 0, maxScore = 0, correctCount = 0, incorrectCount = 0, unansweredCount = 0\<rparr>"

definition computeScore :: "AttemptQuestion list \<Rightarrow> Responses \<Rightarrow> ScoreResult" where
  "computeScore questions responses =
    (let t = foldl (scoreStep responses) tally0 questions;
         attempted = correctCount t + incorrectCount t;
         acc = (if attempted > 0 then of_nat (correctCount t) / of_nat attempted else 0)
     in \<lparr>score = score t, maxScore = maxScore t, correctCount = correctCount t,
         incorrectCount = incorrectCount t, unansweredCount = unansweredCount t,
         accuracy = acc\<rparr>)"

subsection \<open>The scoring rule as the specification words it\<close>




text \<open>Fixtures: multiple-choice questions marked +4/-1, one integer question, and responses
  answering \<open>q1\<close> rightly, \<open>q2\<close> wrongly, \<open>n1\<close> with padding and \<open>q3\<close> with blanks.\<close>

definition example_mcq :: "string \<Rightarrow> string \<Rightarrow> AttemptQuestion" where
  "example_mcq i c =
    \<lparr>q_id = i, sectionId = ''main'', q_type = Mcq, stem = ''?'',
     options = [(''0'', ''a''), (''1'', ''b'')], correctAnswer = Some c, explanation = None,
     marks = \<lparr>correct = 4, incorrect = 1\<rparr>, passage = None\<rparr>"


definition example_response :: "string \<Rightarrow> AttemptResponse" where
  "example_response a = \<lparr>answer = Val a, markedForReview = False, visited = True, answered = True\<rparr>"

definition example_responses :: Responses where
  "example_responses =
     [''q1'' \<mapsto> example_response ''1'', ''q2'' \<mapsto> example_response ''0'',
      ''n1'' \<mapsto> example_response '' 42 '', ''q3'' \<mapsto> example_response ''  '']"


section \<open>The document store, the browser and the component state\<close>

text \<open>
  A stored document, and the payload of a write, is an object: a list of fields with their
  values, each field once. A nested field is addressed by its dotted path, as \<^verbatim>\<open>updateDoc\<close>
  addresses it (\<^verbatim>\<open>responses.<id>.visited\<close>). \<open>VServerTimestamp\<close> is the sentinel of
  \<^verbatim>\<open>serverTimestamp()\<close>.
\<close>

datatype jsval = VNull | VBool bool | VNum rat | VStr string | VServerTimestamp

type_synonym document = "(string \<times> jsval) list"

text \<open>\<^verbatim>\<open>obj[k] = v\<close> on an object whose keys keep their insertion order.\<close>

fun assign :: "'k \<Rightarrow> 'v \<Rightarrow> ('k \<times> 'v) list \<Rightarrow> ('k \<times> 'v) list" where
  "assign k v [] = [(k, v)]"
| "assign k v ((k', v') # kvs) = (if k = k' then (k, v) # kvs else (k', v') # assign k v kvs)"

text \<open>\<^verbatim>\<open>{ ...a, ...b }\<close>, and the reading of a field.\<close>

definition merge :: "document \<Rightarrow> document \<Rightarrow> document" where
  "merge a b = foldl (\<lambda>d kv. assign (fst kv) (snd kv) d) a b"

definition field :: "document \<Rightarrow> string \<Rightarrow> jsval option" where
  "field d k = map_of d k"

text \<open>One remote write as issued: the attempt it addresses, the payload, and whether the
  platform resolved it.\<close>

record WriteEvent =
  w_docId :: string
  w_payload :: document
  w_resolved :: bool

text \<open>A structured query on the \<^verbatim>\<open>attempts\<close> collection: equality filters, one ordering and a
  limit. The platform evaluates it.\<close>

datatype direction = Asc | Desc

record AttemptQuery =
  wheres :: "(string \<times> jsval) list"
  orderedBy :: "string \<times> direction"
  limitTo :: nat

record TestMeta =
  m_id :: string
  title :: string
  subject :: "string option"
  durationMinutes :: int
  sections :: "(string \<times> string) list"

text \<open>The data of a test document and of a question document, each field absent or of the type
  the schema gives it.\<close>

record TestData =
  d_title :: "string option"
  d_subject :: "string option"
  d_durationMinutes :: "int option"
  d_sections :: "(string \<times> string) list option"

record QuestionData =
  d_sectionId :: "string option"
  d_type :: "string option"
  d_text :: "string option"
  d_options :: "string list option"
  d_correctOptionIndex :: "int option"
  d_correctAnswer :: "string option"
  d_explanation :: "string option"
  d_positiveMarks :: "rat option"
  d_negativeMarks :: "rat option"
  d_passage :: "(string \<times> string) option"

text \<open>
  Everything outside the component. \<open>net\<close> lists, in order, whether each coming remote call
  resolves (\<open>True\<close>) or rejects; past its end every call resolves. \<open>idSupply\<close> lists the
  identifiers the platform gives to added documents. \<open>runQuery\<close> is the platform's answer to
  a query on the attempts.
\<close>

record World =
  testDocs :: "string list \<rightharpoonup> TestData"
  questionDocs :: "string list \<Rightarrow> (string \<times> QuestionData) list"
  attempts :: "string \<rightharpoonup> document"
  runQuery :: "AttemptQuery \<Rightarrow> (string \<times> document) list"
  writeLog :: "WriteEvent list"
  net :: "bool list"
  idSupply :: "string list"
  localStorage :: "string \<rightharpoonup> string"
  now :: int
  fullscreenElement :: bool
  fullscreenAllowed :: bool
  route :: "string option"
  toasts :: "string list"

text \<open>The state of the component \<^verbatim>\<open>StudentCBTAttempt\<close> that its handlers read and write: the
  route parameter, what the providers give it, its React state and its two refs.
  \<open>firebaseUser\<close> holds the \<^verbatim>\<open>uid\<close> of the signed-in user.\<close>

record Component =
  testId :: "string option"
  firebaseUser :: "string option"
  educatorId :: "string option"
  tenantSlug :: "string option"
  testMeta :: "TestMeta option"
  questions :: "AttemptQuestion list"
  responses :: Responses
  currentIndex :: int
  attemptId :: "string option"
  attemptStartedAtMs :: "int option"
  durationSec :: int
  isStarted :: bool
  startDialogOpen :: bool
  submitDialogOpen :: bool
  saving :: bool
  lastSavedAt :: "int option"
  timerStartSeconds :: int
  pendingUpdate :: document
  saveTimer :: bool

subsection \<open>Truthiness\<close>

text \<open>A string is falsy when absent or empty, a number when absent or zero.\<close>

definition truthyStr :: "string option \<Rightarrow> bool" where
  "truthyStr v = (case v of None \<Rightarrow> False | Some s \<Rightarrow> s \<noteq> [])"

definition truthyNum :: "int option \<Rightarrow> bool" where
  "truthyNum v = (case v of None \<Rightarrow> False | Some n \<Rightarrow> n \<noteq> 0)"

text \<open>\<^verbatim>\<open>a || b\<close> on a string and on a number.\<close>

definition orStr :: "string option \<Rightarrow> string \<Rightarrow> string" where
  "orStr v d = (case v of None \<Rightarrow> d | Some s \<Rightarrow> if s = [] then d else s)"

definition orNum :: "int \<Rightarrow> int \<Rightarrow> int" where
  "orNum n d = (if n = 0 then d else n)"

subsection \<open>Remote calls and browser calls\<close>

definition nextResolves :: "World \<Rightarrow> bool" where
  "nextResolves w = (case net w of [] \<Rightarrow> True | b # _ \<Rightarrow> b)"

definition afterCall :: "World \<Rightarrow> World" where
  "afterCall w = w\<lparr>net := tl (net w)\<rparr>"

text \<open>\<^verbatim>\<open>getDoc\<close> on a test document and on an attempt; \<^verbatim>\<open>getDocs\<close> on a question collection and
  on a query. \<open>None\<close> is a rejected call; the world after the call comes with it.\<close>

definition getTestDoc :: "World \<Rightarrow> string list \<Rightarrow> TestData option option \<times> World" where
  "getTestDoc w path = (if nextResolves w then Some (testDocs w path) else None, afterCall w)"

definition getQuestionDocs ::
  "World \<Rightarrow> string list \<Rightarrow> (string \<times> QuestionData) list option \<times> World" where
  "getQuestionDocs w path = (if nextResolves w then Some (questionDocs w path) else None, afterCall w)"

definition getAttemptDoc :: "World \<Rightarrow> string \<Rightarrow> document option option \<times> World" where
  "getAttemptDoc w i = (if nextResolves w then Some (attempts w i) else None, afterCall w)"

definition getAttemptDocs ::
  "World \<Rightarrow> AttemptQuery \<Rightarrow> (string \<times> document) list option \<times> World" where
  "getAttemptDocs w q = (if nextResolves w then Some (runQuery w q) else None, afterCall w)"

text \<open>\<^verbatim>\<open>updateDoc\<close> on an attempt: it resolves when the call resolves and the document exists,
  and then overwrites the fields of the payload. The write is logged either way.\<close>

definition updateDoc :: "World \<Rightarrow> string \<Rightarrow> document \<Rightarrow> bool \<times> World" where
  "updateDoc w i payload =
    (case (if nextResolves w then attempts w i else None) of
       Some d \<Rightarrow>
         (True, (afterCall w)\<lparr>attempts := (attempts w)(i \<mapsto> merge d payload),
                  writeLog := writeLog w @ [\<lparr>w_docId = i, w_payload = payload, w_resolved = True\<rparr>]\<rparr>)
     | None \<Rightarrow>
         (False, (afterCall w)\<lparr>writeLog :=
                    writeLog w @ [\<lparr>w_docId = i, w_payload = payload, w_resolved = False\<rparr>]\<rparr>))"

text \<open>\<^verbatim>\<open>addDoc\<close> on the attempts: it resolves with the next identifier of the supply.\<close>

definition addDoc :: "World \<Rightarrow> document \<Rightarrow> string option \<times> World" where
  "addDoc w payload =
    (case (if nextResolves w then idSupply w else []) of
       i # rest \<Rightarrow>
         (Some i, (afterCall w)\<lparr>attempts := (attempts w)(i \<mapsto> payload), idSupply := rest,
                    writeLog := writeLog w @ [\<lparr>w_docId = i, w_payload = payload, w_resolved = True\<rparr>]\<rparr>)
     | [] \<Rightarrow> (None, afterCall w))"

definition toast :: "string \<Rightarrow> World \<Rightarrow> World" where
  "toast msg w = w\<lparr>toasts := toasts w @ [msg]\<rparr>"

definition requestFullscreenSafe :: "World \<Rightarrow> bool \<times> World" where
  "requestFullscreenSafe w =
    (if fullscreenElement w then (True, w)
     else if fullscreenAllowed w then (True, w\<lparr>fullscreenElement := True\<rparr>)
     else (False, w))"

definition exitFullscreenSafe :: "World \<Rightarrow> World" where
  "exitFullscreenSafe w = (if fullscreenElement w then w\<lparr>fullscreenElement := False\<rparr> else w)"

section \<open>The attempt state machine\<close>

definition LS_ATTEMPT_ID_PREFIX :: string where
  "LS_ATTEMPT_ID_PREFIX = ''cbt_attempt_id__''"

definition attemptIdStorageKey :: "Component \<Rightarrow> string" where
  "attemptIdStorageKey c =
     LS_ATTEMPT_ID_PREFIX @ orStr (tenantSlug c) ''main'' @ ''__'' @ orStr (testId c) []"

definition initResponse :: AttemptResponse where
  "initResponse = \<lparr>answer = Null, markedForReview = False, visited = False, answered = False\<rparr>"

definition buildInitResponses :: "AttemptQuestion list \<Rightarrow> Responses" where
  "buildInitResponses qs = foldl (\<lambda>init q. init(q_id q \<mapsto> initResponse)) Map.empty qs"

text \<open>
  \<^verbatim>\<open>computeRemainingSeconds\<close>, with \<^verbatim>\<open>Date.now()\<close> as the first argument. \<open>div\<close> on \<open>int\<close>
  rounds down, as \<^verbatim>\<open>Math.floor\<close> does.
\<close>

definition computeRemainingSeconds :: "int \<Rightarrow> int option \<Rightarrow> int \<Rightarrow> int" where
  "computeRemainingSeconds nowMs startedAtMs totalSec =
    (if totalSec = 0 then 0
     else case startedAtMs of
            None \<Rightarrow> totalSec
          | Some s \<Rightarrow> if s = 0 then totalSec
                     else (let elapsed = (nowMs - s) div 1000 in max 0 (totalSec - elapsed)))"

text \<open>\<^verbatim>\<open>questions[currentIndex] || null\<close>\<close>

definition currentQuestion :: "Component \<Rightarrow> AttemptQuestion option" where
  "currentQuestion c =
    (if 0 \<le> currentIndex c \<and> currentIndex c < int (length (questions c))
     then Some (questions c ! nat (currentIndex c)) else None)"

subsection \<open>Debounced saving\<close>

definition responseField :: "string \<Rightarrow> string \<Rightarrow> string" where
  "responseField qId f = ''responses.'' @ qId @ ''.'' @ f"

text \<open>\<^verbatim>\<open>queueAttemptUpdate\<close>: without an attempt reference nothing is queued; otherwise the patch
  is merged over the pending one and the timer is armed anew.\<close>

definition queueAttemptUpdate :: "document \<Rightarrow> Component \<Rightarrow> Component" where
  "queueAttemptUpdate patch c =
    (if \<not> truthyStr (attemptId c) then c
     else c\<lparr>pendingUpdate := merge (pendingUpdate c) patch, saveTimer := True\<rparr>)"

text \<open>The timer of \<^verbatim>\<open>queueAttemptUpdate\<close> going off, 650 ms after the last queued patch.\<close>

definition saveTimerFires :: "Component \<times> World \<Rightarrow> Component \<times> World" where
  "saveTimerFires cw =
    (case cw of (c, w) \<Rightarrow>
      (case (if saveTimer c then attemptId c else None) of
         None \<Rightarrow> (c, w)
       | Some aid \<Rightarrow>
          (let payload = pendingUpdate c;
               c1 = c\<lparr>pendingUpdate := [], saveTimer := False\<rparr>;
               (ok, w1) = updateDoc w aid (merge payload [(''updatedAt'', VServerTimestamp)])
           in if ok then (c1\<lparr>lastSavedAt := Some (now w1), saving := False\<rparr>, w1)
              else (c1\<lparr>saving := False\<rparr>, toast ''Failed to save progress'' w1))))"

text \<open>\<^verbatim>\<open>flushPendingSaves\<close>: the first component is \<open>False\<close> when the write rejected.\<close>

definition flushPendingSaves :: "Component \<times> World \<Rightarrow> bool \<times> Component \<times> World" where
  "flushPendingSaves cw =
    (case cw of (c, w) \<Rightarrow>
      (case (if truthyStr (attemptId c) then attemptId c else None) of
         None \<Rightarrow> (True, c, w)
       | Some aid \<Rightarrow>
          (let pending = pendingUpdate c;
               c1 = c\<lparr>saveTimer := False, pendingUpdate := []\<rparr>
           in if pending \<noteq> []
              then (let (ok, w1) = updateDoc w aid (merge pending [(''updatedAt'', VServerTimestamp)])
                    in (ok, c1, w1))
              else (True, c1, w))))"

subsection \<open>Navigation and answering\<close>

definition goToIndex :: "int \<Rightarrow> Component \<Rightarrow> Component" where
  "goToIndex idx c =
    (let next = max 0 (min idx (int (length (questions c)) - 1));
         c1 = c\<lparr>currentIndex := next\<rparr>
     in if truthyStr (attemptId c) then queueAttemptUpdate [(''currentIndex'', VNum (of_int next))] c1
        else c1)"

text \<open>The effect that marks the current question visited, once the attempt is started.\<close>

definition markVisited :: "Component \<Rightarrow> Component" where
  "markVisited c =
    (case (if isStarted c \<and> truthyStr (attemptId c) then currentQuestion c else None) of
       None \<Rightarrow> c
     | Some q \<Rightarrow>
        (let qId = q_id q in
         case responses c qId of
           None \<Rightarrow> c
         | Some cur \<Rightarrow>
            if visited cur then c
            else queueAttemptUpdate
                   [(responseField qId ''visited'', VBool True),
                    (''currentIndex'', VNum (of_int (currentIndex c)))]
                   (c\<lparr>responses := (responses c)(qId \<mapsto> cur\<lparr>visited := True\<rparr>)\<rparr>)))"

text \<open>The heartbeat, every 20 s while started.\<close>

definition heartbeat :: "Component \<Rightarrow> Component" where
  "heartbeat c =
    (if \<not> isStarted c \<or> \<not> truthyStr (attemptId c) then c
     else queueAttemptUpdate [(''currentIndex'', VNum (of_int (currentIndex c)))] c)"

text \<open>\<^verbatim>\<open>{ ...prev[id], ... }\<close> on a response that may be missing: the flags of a missing one read
  as falsy.\<close>

definition responseOr :: "Responses \<Rightarrow> string \<Rightarrow> AttemptResponse" where
  "responseOr rs qId =
    (case rs qId of
       None \<Rightarrow> \<lparr>answer = Undefined, markedForReview = False, visited = False, answered = False\<rparr>
     | Some r \<Rightarrow> r)"

definition handleAnswer :: "string \<Rightarrow> Component \<Rightarrow> Component" where
  "handleAnswer a c =
    (case (if truthyStr (attemptId c) then currentQuestion c else None) of
       None \<Rightarrow> c
     | Some q \<Rightarrow>
        queueAttemptUpdate
          [(responseField (q_id q) ''answer'', VStr a),
           (responseField (q_id q) ''answered'', VBool (length a > 0)),
           (''currentIndex'', VNum (of_int (currentIndex c)))]
          (c\<lparr>responses := (responses c)(q_id q \<mapsto>
                (responseOr (responses c) (q_id q))\<lparr>answer := Val a, answered := length a > 0\<rparr>)\<rparr>))"

definition handleMarkForReview :: "Component \<Rightarrow> Component" where
  "handleMarkForReview c =
    (case (if truthyStr (attemptId c) then currentQuestion c else None) of
       None \<Rightarrow> c
     | Some q \<Rightarrow>
        (let nextVal = \<not> markedForReview (responseOr (responses c) (q_id q)) in
         queueAttemptUpdate
           [(responseField (q_id q) ''markedForReview'', VBool nextVal),
            (''currentIndex'', VNum (of_int (currentIndex c)))]
           (c\<lparr>responses := (responses c)(q_id q \<mapsto>
                 (responseOr (responses c) (q_id q))\<lparr>markedForReview := nextVal\<rparr>)\<rparr>)))"

definition handleClearResponse :: "Component \<Rightarrow> Component" where
  "handleClearResponse c =
    (case (if truthyStr (attemptId c) then currentQuestion c else None) of
       None \<Rightarrow> c
     | Some q \<Rightarrow>
        queueAttemptUpdate
          [(responseField (q_id q) ''answer'', VNull),
           (responseField (q_id q) ''answered'', VBool False),
           (''currentIndex'', VNum (of_int (currentIndex c)))]
          (c\<lparr>responses := (responses c)(q_id q \<mapsto>
                (responseOr (responses c) (q_id q))\<lparr>answer := Null, answered := False\<rparr>)\<rparr>))"

subsection \<open>Submitting\<close>

definition submitPayload :: "ScoreResult \<Rightarrow> int \<Rightarrow> document" where
  "submitPayload r timeTakenSec =
    [(''status'', VStr ''submitted''),
     (''submittedAt'', VServerTimestamp),
     (''updatedAt'', VServerTimestamp),
     (''score'', VNum (score r)),
     (''maxScore'', VNum (maxScore r)),
     (''correctCount'', VNum (of_nat (correctCount r))),
     (''incorrectCount'', VNum (of_nat (incorrectCount r))),
     (''unansweredCount'', VNum (of_nat (unansweredCount r))),
     (''accuracy'', VNum (accuracy r)),
     (''timeTakenSec'', VNum (of_int timeTakenSec))]"

text \<open>What \<^verbatim>\<open>handleSubmit\<close> computes between the flush and the finalizing write: the score,
  the time taken, and from them the payload.\<close>

definition finalizingPayload :: "Component \<Rightarrow> TestMeta \<Rightarrow> int \<Rightarrow> document" where
  "finalizingPayload c meta nowMs =
    (let r = computeScore (questions c) (responses c);
         totalSec = orNum (durationSec c) (durationMinutes meta * 60);
         startedAtMs = (case attemptStartedAtMs c of
                          None \<Rightarrow> nowMs
                        | Some s \<Rightarrow> if s = 0 then nowMs else s);
         remaining = computeRemainingSeconds nowMs (Some startedAtMs) totalSec;
         timeTakenSec = max 0 (totalSec - remaining)
     in submitPayload r timeTakenSec)"

definition resultsRoute :: "string \<Rightarrow> bool \<Rightarrow> string" where
  "resultsRoute aid isAutoSubmit =
     ''/student/results/'' @ aid @ ''?fromTest=true'' @ (if isAutoSubmit then ''&auto=1'' else [])"

text \<open>\<^verbatim>\<open>handleSubmit\<close>. The \<^verbatim>\<open>catch\<close> block is the two branches that toast
  \<^verbatim>\<open>"Failed to submit test"\<close>; the \<^verbatim>\<open>finally\<close> block resets \<open>saving\<close> and closes the dialog on
  every branch past the entry guard.\<close>

definition handleSubmit :: "bool \<Rightarrow> Component \<times> World \<Rightarrow> Component \<times> World" where
  "handleSubmit isAutoSubmit cw =
    (case cw of (c, w) \<Rightarrow>
      (case (attemptId c, firebaseUser c, testMeta c) of
         (Some aid, Some uid, Some meta) \<Rightarrow>
           if aid = [] \<or> \<not> truthyStr (testId c) \<or> \<not> truthyStr (educatorId c) then (c, w)
           else
            (let (flushed, c1, w1) = flushPendingSaves (c\<lparr>saving := True\<rparr>, w) in
             if \<not> flushed
             then (c1\<lparr>saving := False, submitDialogOpen := False\<rparr>,
                   toast ''Failed to submit test'' w1)
             else
              (let (ok, w2) = updateDoc w1 aid (finalizingPayload c meta (now w1))
               in if \<not> ok
                  then (c1\<lparr>saving := False, submitDialogOpen := False\<rparr>,
                        toast ''Failed to submit test'' w2)
                  else (c1\<lparr>saving := False, submitDialogOpen := False\<rparr>,
                        (exitFullscreenSafe
                           (w2\<lparr>localStorage := (localStorage w2)(attemptIdStorageKey c := None)\<rparr>))
                         \<lparr>route := Some (resultsRoute aid isAutoSubmit)\<rparr>)))
       | _ \<Rightarrow> (c, w)))"

definition handleTimeUp :: "Component \<times> World \<Rightarrow> Component \<times> World" where
  "handleTimeUp cw =
    (case cw of (c, w) \<Rightarrow> handleSubmit True (c, toast ''Time's up! Submitting your test...'' w))"

subsection \<open>Starting and resuming\<close>

definition responseLeaves :: "string \<Rightarrow> AttemptResponse \<Rightarrow> (string \<times> jsval) list" where
  "responseLeaves qId r =
    [(responseField qId ''answer'',
        (case answer r of Val a \<Rightarrow> VStr a | Null \<Rightarrow> VNull | Undefined \<Rightarrow> VNull)),
     (responseField qId ''markedForReview'', VBool (markedForReview r)),
     (responseField qId ''visited'', VBool (visited r)),
     (responseField qId ''answered'', VBool (answered r))]"

text \<open>The document that \<^verbatim>\<open>handleStart\<close> adds. The initial responses are laid out leaf by leaf,
  once for every question identifier; a subject that is \<^verbatim>\<open>undefined\<close> is left out, a tenant slug
  that is falsy is stored as \<^verbatim>\<open>null\<close>.\<close>

definition attemptPayload ::
  "Component \<Rightarrow> string \<Rightarrow> string \<Rightarrow> string \<Rightarrow> TestMeta \<Rightarrow> int \<Rightarrow> int \<Rightarrow> document" where
  "attemptPayload c uid eid tid meta totalSec startedAtMs =
    [(''studentId'', VStr uid),
     (''educatorId'', VStr eid),
     (''tenantSlug'', (if truthyStr (tenantSlug c) then VStr (orStr (tenantSlug c) []) else VNull)),
     (''testId'', VStr tid),
     (''testTitle'', VStr (title meta))]
    @ (case subject meta of None \<Rightarrow> [] | Some s \<Rightarrow> [(''subject'', VStr s)])
    @ [(''status'', VStr ''in_progress''),
       (''durationSec'', VNum (of_int totalSec)),
       (''startedAtMs'', VNum (of_int startedAtMs)),
       (''currentIndex'', VNum (of_int (currentIndex c)))]
    @ concat (map (\<lambda>qId. responseLeaves qId initResponse) (remdups (map q_id (questions c))))
    @ [(''createdAt'', VServerTimestamp),
       (''startedAt'', VServerTimestamp),
       (''updatedAt'', VServerTimestamp)]"

text \<open>The end of \<^verbatim>\<open>handleStart\<close>, common to a new and a resumed attempt.\<close>

definition enterInProgress :: "int \<Rightarrow> int \<Rightarrow> Component \<times> World \<Rightarrow> Component \<times> World" where
  "enterInProgress startedAtMs totalSec cw =
    (case cw of (c, w) \<Rightarrow>
      (let remaining = computeRemainingSeconds (now w) (Some startedAtMs) totalSec
       in (c\<lparr>attemptStartedAtMs := Some startedAtMs, durationSec := totalSec,
             timerStartSeconds := remaining, isStarted := True, startDialogOpen := False\<rparr>, w)))"

text \<open>The request for fullscreen at the head of \<^verbatim>\<open>handleStart\<close>: a refusal is only
  reported.\<close>

definition afterFullscreenRequest :: "World \<Rightarrow> World" where
  "afterFullscreenRequest w =
    (case requestFullscreenSafe w of
       (fullscreenOk, w0) \<Rightarrow>
         if fullscreenOk then w0
         else toast ''Fullscreen was blocked by browser. Continuing in normal mode.'' w0)"

definition handleStart :: "Component \<times> World \<Rightarrow> Component \<times> World" where
  "handleStart cw =
    (case cw of (c, w) \<Rightarrow>
      (case (firebaseUser c, testId c, educatorId c, testMeta c) of
         (Some uid, Some tid, Some eid, Some meta) \<Rightarrow>
           if tid = [] \<or> eid = [] then (c, w)
           else
            (let w1 = afterFullscreenRequest w;
                 totalSec = orNum (durationSec c) (durationMinutes meta * 60)
             in if truthyStr (attemptId c) \<and> truthyNum (attemptStartedAtMs c)
                   \<and> computeRemainingSeconds (now w1) (attemptStartedAtMs c) totalSec \<le> 0
                then handleSubmit True (c, toast ''Time is already over. Submitting your test...'' w1)
                else
                 (case (if truthyStr (attemptId c) then attemptId c else None) of
                    None \<Rightarrow>
                     (let startedAtMs = now w1;
                          initialResponses = buildInitResponses (questions c);
                          (added, w2) = addDoc w1 (attemptPayload c uid eid tid meta totalSec startedAtMs)
                      in case added of
                           None \<Rightarrow> (c, toast ''Failed to start test'' w2)
                         | Some i \<Rightarrow>
                             enterInProgress startedAtMs totalSec
                               (c\<lparr>attemptId := Some i, responses := initialResponses ++ responses c\<rparr>,
                                w2\<lparr>localStorage := (localStorage w2)(attemptIdStorageKey c \<mapsto> i)\<rparr>))
                  | Some i \<Rightarrow>
                     (case (if truthyNum (attemptStartedAtMs c) then attemptStartedAtMs c else None) of
                        None \<Rightarrow>
                         (let startedAtMs = now w1;
                              c1 = c\<lparr>attemptStartedAtMs := Some startedAtMs\<rparr>;
                              (ok, w2) = updateDoc w1 i
                                           [(''startedAtMs'', VNum (of_int startedAtMs)),
                                            (''updatedAt'', VServerTimestamp)]
                          in if ok then enterInProgress startedAtMs totalSec (c1, w2)
                             else (c1, toast ''Failed to start test'' w2))
                      | Some startedAtMs \<Rightarrow> enterInProgress startedAtMs totalSec (c, w1))))
       | _ \<Rightarrow> (c, w)))"

section \<open>The events of a started attempt\<close>

text \<open>Navigation as the user sees it: \<^verbatim>\<open>goToIndex\<close>, then the effect that marks the question
  shown visited.\<close>

definition navigate :: "int \<Rightarrow> Component \<Rightarrow> Component" where
  "navigate idx c = markVisited (goToIndex idx c)"

text \<open>
  What can happen to a started attempt, one event at a time and in any order: a navigation,
  a run of the mark-visited effect (React runs it after a render that changed one of its
  dependencies; here it may run at any time), an answer, a toggle of the review mark, a
  clearing, a heartbeat, the save timer going off, and a submit (which, when it fails,
  leaves the attempt in progress).
\<close>

datatype Event =
  GoTo int | EffectRuns | Answer string | MarkForReview | ClearResponse | Heartbeat | TimerFires
  | Submit bool

fun stepEvent :: "Event \<Rightarrow> Component \<times> World \<Rightarrow> Component \<times> World" where
  "stepEvent (GoTo idx) (c, w) = (goToIndex idx c, w)"
| "stepEvent EffectRuns (c, w) = (markVisited c, w)"
| "stepEvent (Answer a) (c, w) = (handleAnswer a c, w)"
| "stepEvent MarkForReview (c, w) = (handleMarkForReview c, w)"
| "stepEvent ClearResponse (c, w) = (handleClearResponse c, w)"
| "stepEvent Heartbeat (c, w) = (heartbeat c, w)"
| "stepEvent TimerFires (c, w) = saveTimerFires (c, w)"
| "stepEvent (Submit isAutoSubmit) (c, w) = handleSubmit isAutoSubmit (c, w)"

definition runEvents :: "Event list \<Rightarrow> Component \<times> World \<Rightarrow> Component \<times> World" where
  "runEvents es cw = foldl (\<lambda>s e. stepEvent e s) cw es"

text \<open>A payload that sets the visited flag of a question, and the number of writes issued so
  far that do.\<close>

definition setsVisited :: "string \<Rightarrow> document \<Rightarrow> bool" where
  "setsVisited qId p = (field p (responseField qId ''visited'') = Some (VBool True))"

definition visitedPatches :: "string \<Rightarrow> World \<Rightarrow> nat" where
  "visitedPatches qId w = length (filter (\<lambda>e. setsVisited qId (w_payload e)) (writeLog w))"

definition isVisited :: "Component \<Rightarrow> string \<Rightarrow> bool" where
  "isVisited c qId = (case responses c qId of None \<Rightarrow> False | Some r \<Rightarrow> visited r)"

text \<open>The invariant behind the at-most-once property: the writes that set the flag of a
  question, issued or still pending, number at most one, and none unless the question is
  visited in the local state.\<close>

definition visitedInv :: "string \<Rightarrow> Component \<times> World \<Rightarrow> bool" where
  "visitedInv qId cw =
    (visitedPatches qId (snd cw) + (if setsVisited qId (pendingUpdate (fst cw)) then 1 else 0)
       \<le> (if isVisited (fst cw) qId then 1 else 0))"

section \<open>Loading a test and finding an attempt to resume\<close>

text \<open>A failure of the load: a remote call the platform rejected, or an \<^verbatim>\<open>Error\<close> thrown by the
  effect itself, with its message.\<close>

datatype failure = Rejected | Failed string

text \<open>\<^verbatim>\<open>String(n)\<close> on an integer.\<close>

fun digitsOf :: "nat \<Rightarrow> string" where
  "digitsOf n = (if n < 10 then [char_of (48 + n)] else digitsOf (n div 10) @ [char_of (48 + n mod 10)])"

definition stringOfInt :: "int \<Rightarrow> string" where
  "stringOfInt i = (if i < 0 then CHR ''-'' # digitsOf (nat (- i)) else digitsOf (nat i))"

definition mapQuestion :: "string \<Rightarrow> QuestionData \<Rightarrow> AttemptQuestion" where
  "mapQuestion i d =
    (let opts = (case d_options d of None \<Rightarrow> [] | Some l \<Rightarrow> l);
         correctIndex = safeNumber (d_correctOptionIndex d) 0;
         positive = safeNumber (d_positiveMarks d) 4;
         negative = safeNumber (d_negativeMarks d) 1
     in \<lparr>q_id = i,
         sectionId = orStr (d_sectionId d) ''main'',
         q_type = (if d_type d = Some ''integer'' then Integer else Mcq),
         stem = orStr (d_text d) [],
         options = map (\<lambda>(k, t). (stringOfInt (int k), t)) (enumerate 0 opts),
         correctAnswer = Some (if d_type d = Some ''integer''
                               then (case d_correctAnswer d of None \<Rightarrow> [] | Some a \<Rightarrow> a)
                               else stringOfInt correctIndex),
         explanation = d_explanation d,
         marks = \<lparr>correct = positive, incorrect = negative\<rparr>,
         passage = d_passage d\<rparr>)"

text \<open>The two candidate sources, each a test document and its question collection: the
  educator's own tests first, the shared test series second.\<close>

definition testSources :: "string \<Rightarrow> string \<Rightarrow> (string list \<times> string list) list" where
  "testSources eid tid =
    [([''educators'', eid, ''my_tests'', tid], [''educators'', eid, ''my_tests'', tid, ''questions'']),
     ([''test_series'', tid], [''test_series'', tid, ''questions''])]"

definition metaOf :: "string \<Rightarrow> TestData \<Rightarrow> TestMeta" where
  "metaOf i d =
    \<lparr>m_id = i,
     title = orStr (d_title d) ''Untitled Test'',
     subject = d_subject d,
     durationMinutes = safeNumber (d_durationMinutes d) 60,
     sections = (case d_sections d of
                   None \<Rightarrow> [(''main'', orStr (d_subject d) ''General'')]
                 | Some ss \<Rightarrow> if ss = [] then [(''main'', orStr (d_subject d) ''General'')] else ss)\<rparr>"

text \<open>The loop over the sources: a source whose test document is missing is skipped, and the
  first one that has it ends the loop with its questions.\<close>

fun trySources ::
  "World \<Rightarrow> (string list \<times> string list) list
     \<Rightarrow> (failure + (TestMeta option \<times> AttemptQuestion list)) \<times> World" where
  "trySources w [] = (Inr (None, []), w)"
| "trySources w ((testDoc, qCol) # rest) =
    (case getTestDoc w testDoc of
       (None, w1) \<Rightarrow> (Inl Rejected, w1)
     | (Some None, w1) \<Rightarrow> trySources w1 rest
     | (Some (Some d), w1) \<Rightarrow>
        (case getQuestionDocs w1 qCol of
           (None, w2) \<Rightarrow> (Inl Rejected, w2)
         | (Some docs, w2) \<Rightarrow>
            (Inr (Some (metaOf (last testDoc) d), map (\<lambda>(i, q). mapQuestion i q) docs), w2)))"

definition loadTest ::
  "World \<Rightarrow> string \<Rightarrow> string \<Rightarrow> (failure + (TestMeta \<times> AttemptQuestion list)) \<times> World" where
  "loadTest w eid tid =
    (case trySources w (testSources eid tid) of
       (Inl e, w1) \<Rightarrow> (Inl e, w1)
     | (Inr (None, qs), w1) \<Rightarrow> (Inl (Failed ''Test not found''), w1)
     | (Inr (Some meta, qs), w1) \<Rightarrow>
         if qs = [] then (Inl (Failed ''No questions found in this test''), w1)
         else (Inr (meta, qs), w1))"

text \<open>\<^verbatim>\<open>loadAttemptById\<close>, for the signed-in user \<open>uid\<close>, the test \<open>tid\<close> and the educator
  \<open>eid\<close>.\<close>

definition loadAttemptById ::
  "World \<Rightarrow> string \<Rightarrow> string \<Rightarrow> string \<Rightarrow> string
     \<Rightarrow> (failure + (string \<times> document) option) \<times> World" where
  "loadAttemptById w uid tid eid i =
    (case getAttemptDoc w i of
       (None, w1) \<Rightarrow> (Inl Rejected, w1)
     | (Some None, w1) \<Rightarrow> (Inr None, w1)
     | (Some (Some a), w1) \<Rightarrow>
        (if field a ''studentId'' \<noteq> Some (VStr uid) then Inr None
         else if field a ''testId'' \<noteq> Some (VStr tid) then Inr None
         else if field a ''status'' \<noteq> Some (VStr ''in_progress'') then Inr None
         else if field a ''educatorId'' \<noteq> Some (VStr eid) then Inr None
         else Inr (Some (i, a)), w1))"

definition resumeQuery :: "string \<Rightarrow> string \<Rightarrow> string \<Rightarrow> AttemptQuery" where
  "resumeQuery uid tid eid =
    \<lparr>wheres = [(''studentId'', VStr uid), (''testId'', VStr tid), (''educatorId'', VStr eid),
               (''status'', VStr ''in_progress'')],
     orderedBy = (''createdAt'', Desc),
     limitTo = 1\<rparr>"

text \<open>Resume discovery: the cached identifier first, then the query. \<open>key\<close> is the storage
  key of the tenant and the test.\<close>

definition findAttempt ::
  "string \<Rightarrow> World \<Rightarrow> string \<Rightarrow> string \<Rightarrow> string
     \<Rightarrow> (failure + (string \<times> document) option) \<times> World" where
  "findAttempt key w uid tid eid =
    (let cachedId = localStorage w key;
         (fromCache, w1) =
           (case (if truthyStr cachedId then cachedId else None) of
              None \<Rightarrow> (Inr None, w)
            | Some i \<Rightarrow>
               (case loadAttemptById w uid tid eid i of
                  (Inr None, w') \<Rightarrow> (Inr None, w'\<lparr>localStorage := (localStorage w')(key := None)\<rparr>)
                | (r, w') \<Rightarrow> (r, w')))
     in case fromCache of
          Inl e \<Rightarrow> (Inl e, w1)
        | Inr (Some found) \<Rightarrow> (Inr (Some found), w1)
        | Inr None \<Rightarrow>
           (case getAttemptDocs w1 (resumeQuery uid tid eid) of
              (None, w2) \<Rightarrow> (Inl Rejected, w2)
            | (Some [], w2) \<Rightarrow> (Inr None, w2)
            | (Some ((i, d) # _), w2) \<Rightarrow>
                (Inr (Some (i, d)), w2\<lparr>localStorage := (localStorage w2)(key \<mapsto> i)\<rparr>)))"

section \<open>Access-code redemption\<close>

text \<open>An access code of an educator and an unlock record. \<open>expiresAt\<close> holds the milliseconds
  of the stored timestamp, and is \<open>None\<close> when the field is absent or no timestamp.\<close>

record AccessCode =
  testSeriesId :: "string option"
  maxUses :: "int option"
  usesUsed :: "int option"
  expiresAt :: "int option"
  lastUsedAt :: "jsval option"

record TestUnlock =
  u_studentId :: string
  u_educatorId :: string
  u_tenantSlug :: "string option"
  u_testSeriesId :: string
  unlockedVia :: string
  u_accessCode :: string
  unlockedAt :: jsval

text \<open>The two collections the transaction touches: the codes, keyed by educator and code, and
  the unlock records, keyed by their identifier.\<close>

record Store =
  accessCodes :: "string \<times> string \<rightharpoonup> AccessCode"
  testUnlocks :: "string \<rightharpoonup> TestUnlock"

definition isExpired :: "int \<Rightarrow> int option \<Rightarrow> bool" where
  "isExpired nowMs e = (case e of None \<Rightarrow> False | Some t \<Rightarrow> t < nowMs)"

definition unlockIdOf :: "string \<Rightarrow> string \<Rightarrow> string \<Rightarrow> string" where
  "unlockIdOf uid eid tid = uid @ ''__'' @ eid @ ''__'' @ tid"

text \<open>
  The body of the transaction of \<^verbatim>\<open>redeemCode\<close>. A thrown \<^verbatim>\<open>Error\<close> is \<open>Inl\<close> of its message and
  commits nothing; \<open>Inr\<close> is the store after the commit. \<^verbatim>\<open>increment(1)\<close> adds one to the stored
  number and stores \<open>1\<close> over a missing one.
\<close>

definition redeemTransaction ::
  "int \<Rightarrow> string \<Rightarrow> string \<Rightarrow> string \<Rightarrow> string option \<Rightarrow> string \<Rightarrow> Store \<Rightarrow> string + Store" where
  "redeemTransaction nowMs uid eid tid slug codeUpper db =
    (case accessCodes db (eid, codeUpper) of
       None \<Rightarrow> Inl ''Invalid code''
     | Some codeData \<Rightarrow>
        (let codeTestId = orStr (testSeriesId codeData) [] in
         if codeTestId = [] \<or> codeTestId \<noteq> tid then Inl ''Code does not match this test''
         else
          (let cap = safeNumber (maxUses codeData) 0;
               used = safeNumber (usesUsed codeData) 0
           in if cap > 0 \<and> used \<ge> cap then Inl ''Code exhausted''
              else if isExpired nowMs (expiresAt codeData) then Inl ''Code expired''
              else
               (case testUnlocks db (unlockIdOf uid eid tid) of
                  Some already \<Rightarrow> Inr db
                | None \<Rightarrow>
                   Inr (db\<lparr>testUnlocks := (testUnlocks db)(unlockIdOf uid eid tid \<mapsto>
                              \<lparr>u_studentId = uid, u_educatorId = eid, u_tenantSlug = slug,
                               u_testSeriesId = tid, unlockedVia = ''accessCode'',
                               u_accessCode = codeUpper, unlockedAt = VServerTimestamp\<rparr>),
                            accessCodes := (accessCodes db)((eid, codeUpper) \<mapsto>
                              codeData\<lparr>usesUsed := Some (used + 1),
                                       lastUsedAt := Some VServerTimestamp\<rparr>)\<rparr>)))))"

text \<open>\<^verbatim>\<open>msg.includes(part)\<close>\<close>

definition includesStr :: "string \<Rightarrow> string \<Rightarrow> bool" where
  "includesStr msg part = sublist part msg"

text \<open>The message the \<^verbatim>\<open>catch\<close> block of \<^verbatim>\<open>redeemCode\<close> shows for an error message.\<close>

definition userMessage :: "string \<Rightarrow> string" where
  "userMessage msg =
    (if includesStr msg ''Invalid code'' then ''Invalid access code.''
     else if includesStr msg ''does not match'' then ''This code is for a different test.''
     else if includesStr msg ''exhausted'' then ''This code has reached its maximum uses.''
     else if includesStr msg ''expired'' then ''This code is expired.''
     else ''Failed to redeem code.'')"

text \<open>\<^verbatim>\<open>toUpperCase\<close> on ASCII.\<close>

definition toUpperChar :: "char \<Rightarrow> char" where
  "toUpperChar c =
    (if (97::nat) \<le> of_char c \<and> of_char c \<le> (122::nat) then char_of (of_char c - (32::nat)) else c)"

definition toUpperCase :: "string \<Rightarrow> string" where
  "toUpperCase s = map toUpperChar s"

text \<open>The page \<^verbatim>\<open>StudentTestDetails\<close> as far as redemption reads and writes it.\<close>

record DetailsPage =
  p_firebaseUser :: "string option"
  p_educatorId :: "string option"
  p_testId :: "string option"
  p_tenantSlug :: "string option"
  accessCode :: string
  unlockDialogOpen :: bool
  redeeming :: bool
  p_toasts :: "string list"

text \<open>\<^verbatim>\<open>redeemCode\<close>. \<open>commits\<close> tells whether the platform runs the transaction to its end; a
  transaction it gives up is an error with a message of its own. (The second copy of the
  handler in the source, \<^verbatim>\<open>handleRedeemCode\<close>, runs the same transaction on the selected test and
  differs in the wording of the success message only.)\<close>

definition redeemCode :: "int \<Rightarrow> bool \<Rightarrow> DetailsPage \<times> Store \<Rightarrow> DetailsPage \<times> Store" where
  "redeemCode nowMs commits pd =
    (case pd of (p, db) \<Rightarrow>
      (case (p_firebaseUser p, p_educatorId p, p_testId p) of
         (Some uid, Some eid, Some tid) \<Rightarrow>
           if uid = [] \<or> eid = [] \<or> tid = [] then (p, db)
           else
            (let codeUpper = toUpperCase (trim (accessCode p)) in
             if codeUpper = [] then (p\<lparr>p_toasts := p_toasts p @ [''Please enter an access code.'']\<rparr>, db)
             else if \<not> commits
             then (p\<lparr>redeeming := False, p_toasts := p_toasts p @ [''Failed to redeem code.'']\<rparr>, db)
             else
              (case redeemTransaction nowMs uid eid tid (p_tenantSlug p) codeUpper db of
                 Inr db' \<Rightarrow>
                   (p\<lparr>redeeming := False, unlockDialogOpen := False, accessCode := [],
                      p_toasts := p_toasts p @ [''Unlocked successfully!'']\<rparr>, db')
               | Inl msg \<Rightarrow>
                   (p\<lparr>redeeming := False, p_toasts := p_toasts p @ [userMessage msg]\<rparr>, db)))
       | _ \<Rightarrow> (p, db)))"

text \<open>
  A valid code, as the specification words it: the code document exists, is bound to the
  test, has not reached a positive usage cap, and is not past its expiry.
\<close>

definition spec_validCode :: "int \<Rightarrow> string \<Rightarrow> string \<Rightarrow> string \<Rightarrow> Store \<Rightarrow> bool" where
  "spec_validCode nowMs eid tid code db =
    (case accessCodes db (eid, code) of
       None \<Rightarrow> False
     | Some cd \<Rightarrow>
         testSeriesId cd = Some tid \<and> tid \<noteq> []
         \<and> \<not> (safeNumber (maxUses cd) 0 > 0 \<and> safeNumber (usesUsed cd) 0 \<ge> safeNumber (maxUses cd) 0)
         \<and> \<not> isExpired nowMs (expiresAt cd))"

text \<open>The usage counter of a code as the transaction reads it.\<close>

definition usesOf :: "Store \<Rightarrow> string \<Rightarrow> string \<Rightarrow> int" where
  "usesOf db eid code =
    (case accessCodes db (eid, code) of None \<Rightarrow> 0 | Some cd \<Rightarrow> safeNumber (usesUsed cd) 0)"

text \<open>Fixtures: a store with a single-use code and a code without a cap, both bound to the
  test \<open>tX\<close>, and the page of a student about to redeem.\<close>

definition example_store :: Store where
  "example_store =
    \<lparr>accessCodes =
       [(''e1'', ''ONCE'') \<mapsto> \<lparr>testSeriesId = Some ''tX'', maxUses = Some 1, usesUsed = Some 0,
                                expiresAt = None, lastUsedAt = None\<rparr>,
        (''e1'', ''FREE'') \<mapsto> \<lparr>testSeriesId = Some ''tX'', maxUses = None, usesUsed = None,
                                expiresAt = Some 5000, lastUsedAt = None\<rparr>],
     testUnlocks = Map.empty\<rparr>"

definition example_page :: DetailsPage where
  "example_page =
    \<lparr>p_firebaseUser = Some ''u1'', p_educatorId = Some ''e1'', p_testId = Some ''tY'',
     p_tenantSlug = None, accessCode = '' free '', unlockDialogOpen = True, redeeming = False,
     p_toasts = []\<rparr>"

definition example_store_redeemed :: Store where
  "example_store_redeemed =
    \<lparr>accessCodes =
       (accessCodes example_store)((''e1'', ''ONCE'') \<mapsto>
          \<lparr>testSeriesId = Some ''tX'', maxUses = Some 1, usesUsed = Some 1,
           expiresAt = None, lastUsedAt = Some VServerTimestamp\<rparr>),
     testUnlocks =
       [unlockIdOf ''u1'' ''e1'' ''tX'' \<mapsto>
          \<lparr>u_studentId = ''u1'', u_educatorId = ''e1'', u_tenantSlug = None,
           u_testSeriesId = ''tX'', unlockedVia = ''accessCode'', u_accessCode = ''ONCE'',
           unlockedAt = VServerTimestamp\<rparr>]\<rparr>"

definition example_store_free_redeemed :: Store where
  "example_store_free_redeemed =
    \<lparr>accessCodes =
       (accessCodes example_store)((''e1'', ''FREE'') \<mapsto>
          \<lparr>testSeriesId = Some ''tX'', maxUses = None, usesUsed = Some 1,
           expiresAt = Some 5000, lastUsedAt = Some VServerTimestamp\<rparr>),
     testUnlocks =
       [unlockIdOf ''u1'' ''e1'' ''tX'' \<mapsto>
          \<lparr>u_studentId = ''u1'', u_educatorId = ''e1'', u_tenantSlug = None,
           u_testSeriesId = ''tX'', unlockedVia = ''accessCode'', u_accessCode = ''FREE'',
           unlockedAt = VServerTimestamp\<rparr>]\<rparr>"

section \<open>Rankings\<close>























section \<open>Fixtures\<close>

text \<open>A component in the middle of an attempt on two questions, with a patch pending, and
  three worlds: one in which every call resolves, one in which the second call rejects, and
  one a minute past the deadline.\<close>

definition example_meta :: TestMeta where
  "example_meta =
    \<lparr>m_id = ''t1'', title = ''Mock 1'', subject = Some ''Physics'', durationMinutes = 1,
     sections = [(''main'', ''Physics'')]\<rparr>"

definition example_component :: Component where
  "example_component =
    \<lparr>testId = Some ''t1'', firebaseUser = Some ''u1'', educatorId = Some ''e1'',
     tenantSlug = None, testMeta = Some example_meta,
     questions = [example_mcq ''q1'' ''1'', example_mcq ''q2'' ''1''],
     responses = example_responses, currentIndex = 0, attemptId = Some ''att1'',
     attemptStartedAtMs = Some 1000, durationSec = 60, isStarted = True,
     startDialogOpen = False, submitDialogOpen = True, saving = False, lastSavedAt = None,
     timerStartSeconds = 60,
     pendingUpdate = [(''currentIndex'', VNum 0)], saveTimer = True\<rparr>"

definition example_attempt :: document where
  "example_attempt =
    [(''studentId'', VStr ''u1''), (''testId'', VStr ''t1''), (''educatorId'', VStr ''e1''),
     (''status'', VStr ''in_progress'')]"

definition example_world :: World where
  "example_world =
    \<lparr>testDocs = Map.empty, questionDocs = (\<lambda>p. []), attempts = [''att1'' \<mapsto> example_attempt],
     runQuery = (\<lambda>q. []), writeLog = [], net = [], idSupply = [],
     localStorage = [''cbt_attempt_id__main__t1'' \<mapsto> ''att1''], now = 31000,
     fullscreenElement = True, fullscreenAllowed = True, route = None, toasts = []\<rparr>"

definition example_world_failing :: World where
  "example_world_failing = example_world\<lparr>net := [True, False]\<rparr>"

definition example_world_late :: World where
  "example_world_late = example_world\<lparr>now := 121000\<rparr>"

text \<open>A world whose shared test series holds the test \<open>t1\<close> with one question, the educator's
  own tests holding none; and a stored attempt that is already submitted.\<close>

definition example_question_data :: QuestionData where
  "example_question_data =
    \<lparr>d_sectionId = None, d_type = None, d_text = Some ''2 + 2 = ?'',
     d_options = Some [''3'', ''4''], d_correctOptionIndex = Some 1, d_correctAnswer = None,
     d_explanation = None, d_positiveMarks = None, d_negativeMarks = None, d_passage = None\<rparr>"

definition example_test_data :: TestData where
  "example_test_data =
    \<lparr>d_title = Some ''Mock 1'', d_subject = None, d_durationMinutes = Some 30, d_sections = None\<rparr>"

definition example_world_series :: World where
  "example_world_series =
    example_world\<lparr>testDocs := [[''test_series'', ''t1''] \<mapsto> example_test_data],
                   questionDocs := (\<lambda>p. if p = [''test_series'', ''t1'', ''questions'']
                                         then [(''q1'', example_question_data)] else [])\<rparr>"

definition example_world_owned :: World where
  "example_world_owned =
    example_world_series\<lparr>testDocs :=
       [[''test_series'', ''t1''] \<mapsto> example_test_data,
        [''educators'', ''e1'', ''my_tests'', ''t1''] \<mapsto> example_test_data]\<rparr>"

definition example_world_submitted :: World where
  "example_world_submitted =
    example_world\<lparr>attempts :=
       [''att1'' \<mapsto> [(''studentId'', VStr ''u1''), (''testId'', VStr ''t1''),
                     (''educatorId'', VStr ''e1''), (''status'', VStr ''submitted'')],
        ''att2'' \<mapsto> example_attempt],
       runQuery := (\<lambda>q. if q = resumeQuery ''u1'' ''t1'' ''e1'' then [(''att2'', example_attempt)]
                         else [])\<rparr>"

definition example_fresh :: Component where
  "example_fresh =
     example_component\<lparr>responses := buildInitResponses (questions example_component),
                        pendingUpdate := [], saveTimer := False\<rparr>"

section \<open>Properties of scoring\<close>














section \<open>Properties of documents and remote writes\<close>

lemma map_of_assign: "map_of (assign k v d) = (map_of d)(k \<mapsto> v)"
  by (induction d) (auto simp: fun_eq_iff)

lemma keys_assign: "fst ` set (assign k v d) = insert k (fst ` set d)"
proof -
  have "dom (map_of (assign k v d)) = insert k (dom (map_of d))"
    by (simp add: map_of_assign)
  then show ?thesis by (simp add: dom_map_of_conv_image_fst)
qed

lemma keys_merge: "fst ` set (merge a b) = fst ` set a \<union> fst ` set b"
  unfolding merge_def by (induction b arbitrary: a) (auto simp: keys_assign)

lemma map_of_foldl_assign:
  "map_of (foldl (\<lambda>d kv. assign (fst kv) (snd kv) d) a b) = map_of a ++ map_of (rev b)"
proof (induction b arbitrary: a)
  case Nil
  then show ?case by simp
next
  case (Cons kv b)
  have "map_of (foldl (\<lambda>d kv. assign (fst kv) (snd kv) d) (assign (fst kv) (snd kv) a) b)
          = map_of (assign (fst kv) (snd kv) a) ++ map_of (rev b)"
    by (rule Cons.IH)
  also have "\<dots> = (map_of a ++ [fst kv \<mapsto> snd kv]) ++ map_of (rev b)"
    by (simp add: map_of_assign)
  also have "\<dots> = map_of a ++ map_of (rev (kv # b))"
    by (cases kv) (simp add: map_of_append)
  finally show ?case by simp
qed

lemma field_merge:
  "field (merge a b) k = (case map_of (rev b) k of Some v \<Rightarrow> Some v | None \<Rightarrow> field a k)"
  by (simp add: field_def merge_def map_of_foldl_assign map_add_def split: option.splits)

lemma field_merge_other:
  "k \<notin> fst ` set b \<Longrightarrow> field (merge a b) k = field a k"
proof -
  assume "k \<notin> fst ` set b"
  then have "map_of (rev b) k = None" by (simp add: map_of_eq_None_iff)
  then show ?thesis by (simp add: field_merge)
qed

lemma updateDoc_frame:
  "now (snd (updateDoc w i p)) = now w"
  "localStorage (snd (updateDoc w i p)) = localStorage w"
  "route (snd (updateDoc w i p)) = route w"
  "fullscreenElement (snd (updateDoc w i p)) = fullscreenElement w"
  "toasts (snd (updateDoc w i p)) = toasts w"
  by (simp_all add: updateDoc_def afterCall_def split: option.splits)

lemma updateDoc_log:
  "writeLog (snd (updateDoc w i p)) =
     writeLog w @ [\<lparr>w_docId = i, w_payload = p, w_resolved = fst (updateDoc w i p)\<rparr>]"
  by (simp add: updateDoc_def afterCall_def split: option.splits)

lemma updateDoc_attempts:
  "attempts (snd (updateDoc w i p)) i =
     (if fst (updateDoc w i p) then map_option (\<lambda>d. merge d p) (attempts w i) else attempts w i)"
  by (simp add: updateDoc_def afterCall_def split: option.splits)

lemma updateDoc_resolved:
  "fst (updateDoc w i p) \<longleftrightarrow> nextResolves w \<and> attempts w i \<noteq> None"
  by (simp add: updateDoc_def split: option.splits)

lemma toast_frame:
  "writeLog (toast m w) = writeLog w" "localStorage (toast m w) = localStorage w"
  "route (toast m w) = route w" "attempts (toast m w) = attempts w" "now (toast m w) = now w"
  by (simp_all add: toast_def)

section \<open>Properties of submitting and of the deadline\<close>

lemma flushPendingSaves_ready:
  "attemptId c = Some aid \<Longrightarrow> aid \<noteq> [] \<Longrightarrow>
   flushPendingSaves (c, w) =
     (if pendingUpdate c = []
      then (True, c\<lparr>saveTimer := False, pendingUpdate := []\<rparr>, w)
      else (fst (updateDoc w aid (merge (pendingUpdate c) [(''updatedAt'', VServerTimestamp)])),
            c\<lparr>saveTimer := False, pendingUpdate := []\<rparr>,
            snd (updateDoc w aid (merge (pendingUpdate c) [(''updatedAt'', VServerTimestamp)]))))"
  by (simp add: flushPendingSaves_def truthyStr_def Let_def split: prod.splits)

lemma handleSubmit_ready:
  assumes "attemptId c = Some aid" "aid \<noteq> []" "firebaseUser c = Some uid"
    "truthyStr (testId c)" "truthyStr (educatorId c)" "testMeta c = Some meta"
    and fl: "flushPendingSaves (c\<lparr>saving := True\<rparr>, w) = (flushed, c1, w1)"
    and up: "updateDoc w1 aid (finalizingPayload c meta (now w1)) = (ok, w2)"
  shows "handleSubmit isAuto (c, w) =
     (c1\<lparr>saving := False, submitDialogOpen := False\<rparr>,
      if \<not> flushed then toast ''Failed to submit test'' w1
      else if \<not> ok then toast ''Failed to submit test'' w2
      else (exitFullscreenSafe (w2\<lparr>localStorage := (localStorage w2)(attemptIdStorageKey c := None)\<rparr>))
             \<lparr>route := Some (resultsRoute aid isAuto)\<rparr>)"
  using assms by (simp add: handleSubmit_def Let_def)

lemma finalizingPayload_fields:
  "field (finalizingPayload c meta t) ''status'' = Some (VStr ''submitted'')"
  "field (finalizingPayload c meta t) ''score''
     = Some (VNum (score (computeScore (questions c) (responses c))))"
  "field (finalizingPayload c meta t) ''maxScore''
     = Some (VNum (maxScore (computeScore (questions c) (responses c))))"
  "field (finalizingPayload c meta t) ''correctCount''
     = Some (VNum (of_nat (correctCount (computeScore (questions c) (responses c)))))"
  "field (finalizingPayload c meta t) ''incorrectCount''
     = Some (VNum (of_nat (incorrectCount (computeScore (questions c) (responses c)))))"
  "field (finalizingPayload c meta t) ''unansweredCount''
     = Some (VNum (of_nat (unansweredCount (computeScore (questions c) (responses c)))))"
  "field (finalizingPayload c meta t) ''accuracy''
     = Some (VNum (accuracy (computeScore (questions c) (responses c))))"
  "\<exists>n\<ge>0. field (finalizingPayload c meta t) ''timeTakenSec'' = Some (VNum (of_int n))"
  by (simp_all add: finalizingPayload_def submitPayload_def field_def Let_def)

lemma example_key: "attemptIdStorageKey example_component = ''cbt_attempt_id__main__t1''"
  by (simp add: attemptIdStorageKey_def example_component_def LS_ATTEMPT_ID_PREFIX_def orStr_def)

lemma example_flush:
  "flushPendingSaves (example_component\<lparr>saving := True\<rparr>, w) =
     (fst (updateDoc w ''att1'' [(''currentIndex'', VNum 0), (''updatedAt'', VServerTimestamp)]),
      example_component\<lparr>saving := True, saveTimer := False, pendingUpdate := []\<rparr>,
      snd (updateDoc w ''att1'' [(''currentIndex'', VNum 0), (''updatedAt'', VServerTimestamp)]))"
  by (simp add: flushPendingSaves_def example_component_def truthyStr_def Let_def merge_def
        split: prod.splits)

text \<open>
  Claim C2. Take a submit, by the user or automatic, on an existing attempt, in a component
  whose entry guard passes (a signed-in user, a test id, an educator id and a loaded test)
  and whose pending patch does not name the status field, as no patch the component queues
  does. \<open>handleSubmit\<close> first writes the pending patch, if there is one, to the attempt, and
  only then, and only when that write resolved, issues the finalizing write: the write log
  grows by the pending payload followed by the finalizing payload. The finalizing payload
  carries status \<^verbatim>\<open>submitted\<close> together with score, maxScore, the three counts, accuracy and
  timeTakenSec. When the finalizing write resolves, the attempt is stored as submitted, the
  cache entry of the tenant and test is removed and the results view is the route. When it
  does not (or the flush rejected), the stored status is what it was, the cache entry is
  kept and the route is unchanged.
\<close>

theorem handleSubmit_flushes_then_finalizes:
  assumes ready: "attemptId c = Some aid" "aid \<noteq> []" "firebaseUser c = Some uid"
      "truthyStr (testId c)" "truthyStr (educatorId c)" "testMeta c = Some meta"
    and nostatus: "''status'' \<notin> fst ` set (pendingUpdate c)"
    and fl: "flushPendingSaves (c\<lparr>saving := True\<rparr>, w) = (flushed, c1, w1)"
    and up: "updateDoc w1 aid (finalizingPayload c meta (now w)) = (ok, w2)"
    and hs: "handleSubmit isAuto (c, w) = (c', w')"
  shows
    "writeLog w1 = writeLog w @
        (if pendingUpdate c = [] then []
         else [\<lparr>w_docId = aid,
                w_payload = merge (pendingUpdate c) [(''updatedAt'', VServerTimestamp)],
                w_resolved = flushed\<rparr>])
     \<and> writeLog w' = writeLog w1 @
        (if flushed
         then [\<lparr>w_docId = aid, w_payload = finalizingPayload c meta (now w), w_resolved = ok\<rparr>]
         else [])
     \<and> field (finalizingPayload c meta (now w)) ''status'' = Some (VStr ''submitted'')
     \<and> field (finalizingPayload c meta (now w)) ''score''
           = Some (VNum (score (computeScore (questions c) (responses c))))
     \<and> field (finalizingPayload c meta (now w)) ''maxScore''
           = Some (VNum (maxScore (computeScore (questions c) (responses c))))
     \<and> field (finalizingPayload c meta (now w)) ''correctCount''
           = Some (VNum (of_nat (correctCount (computeScore (questions c) (responses c)))))
     \<and> field (finalizingPayload c meta (now w)) ''incorrectCount''
           = Some (VNum (of_nat (incorrectCount (computeScore (questions c) (responses c)))))
     \<and> field (finalizingPayload c meta (now w)) ''unansweredCount''
           = Some (VNum (of_nat (unansweredCount (computeScore (questions c) (responses c)))))
     \<and> field (finalizingPayload c meta (now w)) ''accuracy''
           = Some (VNum (accuracy (computeScore (questions c) (responses c))))
     \<and> (\<exists>n\<ge>0. field (finalizingPayload c meta (now w)) ''timeTakenSec'' = Some (VNum (of_int n)))
     \<and> (flushed \<and> ok \<longrightarrow>
           (\<exists>d. attempts w1 aid = Some d
                \<and> attempts w' aid = Some (merge d (finalizingPayload c meta (now w))))
           \<and> map_option (\<lambda>d. field d ''status'') (attempts w' aid) = Some (Some (VStr ''submitted''))
           \<and> localStorage w' = (localStorage w)(attemptIdStorageKey c := None)
           \<and> route w' = Some (resultsRoute aid isAuto))
     \<and> (\<not> (flushed \<and> ok) \<longrightarrow>
           localStorage w' = localStorage w \<and> route w' = route w
           \<and> map_option (\<lambda>d. field d ''status'') (attempts w' aid)
               = map_option (\<lambda>d. field d ''status'') (attempts w aid))"
proof -
  let ?P = "merge (pendingUpdate c) [(''updatedAt'', VServerTimestamp)]"
  let ?F = "finalizingPayload c meta (now w)"
  have fl': "(flushed, c1, w1) =
     (if pendingUpdate c = []
      then (True, c\<lparr>saving := True, saveTimer := False, pendingUpdate := []\<rparr>, w)
      else (fst (updateDoc w aid ?P), c\<lparr>saving := True, saveTimer := False, pendingUpdate := []\<rparr>,
            snd (updateDoc w aid ?P)))"
    using flushPendingSaves_ready [of "c\<lparr>saving := True\<rparr>" aid w] ready(1,2) fl by simp
  have now1: "now w1 = now w" and ls1: "localStorage w1 = localStorage w" and r1: "route w1 = route w"
    using fl' by (auto simp: updateDoc_frame split: if_splits)
  have log1: "writeLog w1 = writeLog w @
        (if pendingUpdate c = [] then []
         else [\<lparr>w_docId = aid, w_payload = ?P, w_resolved = flushed\<rparr>])"
    using fl' by (auto simp: updateDoc_log split: if_splits)
  have statusP: "field (merge d ?P) ''status'' = field d ''status''" for d
  proof -
    have "field ?P ''status'' = field (pendingUpdate c) ''status''"
      by (rule field_merge_other) simp
    also have "\<dots> = None" using nostatus by (simp add: field_def map_of_eq_None_iff)
    finally have "map_of ?P ''status'' = None" by (simp add: field_def)
    then have "''status'' \<notin> fst ` set ?P" by (simp add: map_of_eq_None_iff)
    then show ?thesis by (rule field_merge_other)
  qed
  have att1: "map_option (\<lambda>d. field d ''status'') (attempts w1 aid)
               = map_option (\<lambda>d. field d ''status'') (attempts w aid)"
    using fl' by (cases "attempts w aid") (auto simp: updateDoc_attempts statusP split: if_splits)
  have w2: "w2 = snd (updateDoc w1 aid ?F)" and ok: "ok = fst (updateDoc w1 aid ?F)"
    using up by simp_all
  have hs': "w' = (if \<not> flushed then toast ''Failed to submit test'' w1
      else if \<not> ok then toast ''Failed to submit test'' w2
      else (exitFullscreenSafe (w2\<lparr>localStorage := (localStorage w2)(attemptIdStorageKey c := None)\<rparr>))
             \<lparr>route := Some (resultsRoute aid isAuto)\<rparr>)"
    using handleSubmit_ready [OF ready fl, of ok w2 isAuto] up hs by (simp add: now1)
  have log2: "writeLog w' = writeLog w1 @
        (if flushed then [\<lparr>w_docId = aid, w_payload = ?F, w_resolved = ok\<rparr>] else [])"
    by (simp add: hs' toast_frame exitFullscreenSafe_def w2 ok updateDoc_log)
  have succ: "flushed \<and> ok \<longrightarrow>
           (\<exists>d. attempts w1 aid = Some d \<and> attempts w' aid = Some (merge d ?F))
           \<and> map_option (\<lambda>d. field d ''status'') (attempts w' aid) = Some (Some (VStr ''submitted''))
           \<and> localStorage w' = (localStorage w)(attemptIdStorageKey c := None)
           \<and> route w' = Some (resultsRoute aid isAuto)"
  proof
    assume a: "flushed \<and> ok"
    then obtain d where d: "attempts w1 aid = Some d"
      using ok updateDoc_resolved [of w1 aid ?F] by auto
    have w'a: "attempts w' aid = Some (merge d ?F)"
      using a d by (simp add: hs' exitFullscreenSafe_def w2 updateDoc_attempts ok [symmetric])
    have "field (merge d ?F) ''status'' = Some (VStr ''submitted'')"
      by (simp add: field_merge finalizingPayload_def submitPayload_def Let_def)
    then show "(\<exists>d. attempts w1 aid = Some d \<and> attempts w' aid = Some (merge d ?F))
           \<and> map_option (\<lambda>d. field d ''status'') (attempts w' aid) = Some (Some (VStr ''submitted''))
           \<and> localStorage w' = (localStorage w)(attemptIdStorageKey c := None)
           \<and> route w' = Some (resultsRoute aid isAuto)"
      using a d w'a by (simp add: hs' exitFullscreenSafe_def w2 updateDoc_frame ls1)
  qed
  have fail: "\<not> (flushed \<and> ok) \<longrightarrow>
           localStorage w' = localStorage w \<and> route w' = route w
           \<and> map_option (\<lambda>d. field d ''status'') (attempts w' aid)
               = map_option (\<lambda>d. field d ''status'') (attempts w aid)"
  proof
    assume a: "\<not> (flushed \<and> ok)"
    have "attempts w' aid = attempts w1 aid"
      using a by (auto simp: hs' toast_frame w2 updateDoc_attempts ok [symmetric])
    then show "localStorage w' = localStorage w \<and> route w' = route w
           \<and> map_option (\<lambda>d. field d ''status'') (attempts w' aid)
               = map_option (\<lambda>d. field d ''status'') (attempts w aid)"
      using a att1 by (auto simp: hs' toast_frame w2 updateDoc_frame ls1 r1)
  qed
  show ?thesis
    using log1 log2 succ fail finalizingPayload_fields [of c meta "now w"] by blast
qed

theorem handleSubmit_flushes_then_finalizes_witness:
  "localStorage (snd (handleSubmit False (example_component, example_world)))
       ''cbt_attempt_id__main__t1'' = None
   \<and> route (snd (handleSubmit False (example_component, example_world)))
       = Some ''/student/results/att1?fromTest=true''
   \<and> map_option (\<lambda>d. field d ''status'')
        (attempts (snd (handleSubmit False (example_component, example_world))) ''att1'')
       = Some (Some (VStr ''submitted''))
   \<and> localStorage (snd (handleSubmit False (example_component, example_world_failing)))
       ''cbt_attempt_id__main__t1'' = Some ''att1''
   \<and> map_option (\<lambda>d. field d ''status'')
        (attempts (snd (handleSubmit False (example_component, example_world_failing))) ''att1'')
       = Some (Some (VStr ''in_progress''))"
proof -
  let ?c = example_component
  let ?P = "[(''currentIndex'', VNum 0), (''updatedAt'', VServerTimestamp)]"
  have ready: "attemptId ?c = Some ''att1''" "''att1'' \<noteq> []" "firebaseUser ?c = Some ''u1''"
      "truthyStr (testId ?c)" "truthyStr (educatorId ?c)" "testMeta ?c = Some example_meta"
      "''status'' \<notin> fst ` set (pendingUpdate ?c)"
    by (simp_all add: example_component_def truthyStr_def)
  have collapse:
      "handleSubmit False (?c, w) = (fst (handleSubmit False (?c, w)), snd (handleSubmit False (?c, w)))"
      "updateDoc w1 ''att1'' F = (fst (updateDoc w1 ''att1'' F), snd (updateDoc w1 ''att1'' F))"
    for w w1 F
    by simp_all
  note good = handleSubmit_flushes_then_finalizes
      [OF ready example_flush [of example_world] collapse(2) collapse(1)]
  note bad = handleSubmit_flushes_then_finalizes
      [OF ready example_flush [of example_world_failing] collapse(2) collapse(1)]
  have g1: "fst (updateDoc example_world ''att1'' ?P)"
    by (simp add: updateDoc_resolved nextResolves_def example_world_def)
  have g2: "fst (updateDoc (snd (updateDoc example_world ''att1'' ?P)) ''att1'' F)" for F
    by (simp add: updateDoc_resolved nextResolves_def example_world_def updateDoc_def afterCall_def)
  have b1: "fst (updateDoc example_world_failing ''att1'' ?P)"
    by (simp add: updateDoc_resolved nextResolves_def example_world_def example_world_failing_def)
  have b2: "\<not> fst (updateDoc (snd (updateDoc example_world_failing ''att1'' ?P)) ''att1'' F)" for F
    by (simp add: updateDoc_resolved nextResolves_def example_world_def example_world_failing_def
          updateDoc_def afterCall_def)
  have ls: "localStorage example_world = [''cbt_attempt_id__main__t1'' \<mapsto> ''att1'']"
       "localStorage example_world_failing = [''cbt_attempt_id__main__t1'' \<mapsto> ''att1'']"
       "attempts example_world_failing ''att1'' = Some example_attempt"
       "field example_attempt ''status'' = Some (VStr ''in_progress'')"
    by (simp_all add: example_world_def example_world_failing_def example_attempt_def field_def)
  show ?thesis
    using good bad g1 g2 b1 b2
    by (simp add: example_key ls resultsRoute_def)
qed

lemma remaining_after_deadline:
  "T0 \<noteq> 0 \<Longrightarrow> nowMs \<ge> T0 + 1000 * D \<Longrightarrow> computeRemainingSeconds nowMs (Some T0) D = 0"
proof -
  assume a: "T0 \<noteq> 0" "nowMs \<ge> T0 + 1000 * D"
  have "(nowMs - T0) div 1000 \<ge> D"
  proof -
    have "1000 * D \<le> nowMs - T0" using a by simp
    then have "(1000 * D) div 1000 \<le> (nowMs - T0) div 1000" by (rule zdiv_mono1) simp
    then show ?thesis by simp
  qed
  then show ?thesis using a by (simp add: computeRemainingSeconds_def Let_def)
qed

lemma remaining_nonpos_started:
  "D > 0 \<Longrightarrow> computeRemainingSeconds nowMs s D \<le> 0 \<Longrightarrow> truthyNum s"
  by (auto simp: computeRemainingSeconds_def truthyNum_def Let_def split: option.splits if_splits)

lemma flushPendingSaves_frame:
  "isStarted (fst (snd (flushPendingSaves (c, w)))) = isStarted c"
  "timerStartSeconds (fst (snd (flushPendingSaves (c, w)))) = timerStartSeconds c"
  by (simp_all add: flushPendingSaves_def Let_def split: option.splits prod.splits)

lemma handleSubmit_frame:
  "isStarted (fst (handleSubmit a (c, w))) = isStarted c"
  "timerStartSeconds (fst (handleSubmit a (c, w))) = timerStartSeconds c"
  using flushPendingSaves_frame [of "c\<lparr>saving := True\<rparr>" w]
  by (auto simp: handleSubmit_def Let_def split: option.splits prod.splits)

lemma handleStart_expired:
  assumes "firebaseUser c = Some uid" "testId c = Some tid" "tid \<noteq> []"
    "educatorId c = Some eid" "eid \<noteq> []" "testMeta c = Some meta"
    "attemptId c = Some aid" "aid \<noteq> []" "durationSec c > 0"
    "computeRemainingSeconds (now w) (attemptStartedAtMs c) (durationSec c) \<le> 0"
  shows "handleStart (c, w) =
      handleSubmit True (c, toast ''Time is already over. Submitting your test...''
         (afterFullscreenRequest w))"
proof -
  have t: "truthyNum (attemptStartedAtMs c)" using assms(9,10) by (rule remaining_nonpos_started)
  have n: "now (afterFullscreenRequest w) = now w"
    by (simp add: afterFullscreenRequest_def requestFullscreenSafe_def toast_def)
  show ?thesis using assms t
    by (simp add: handleStart_def Let_def truthyStr_def orNum_def n)
qed

text \<open>
  Claim C7. For an attempt with start time \<open>T0\<close> (a truthy \<^verbatim>\<open>startedAtMs\<close>: the code reads \<open>0\<close>
  as it reads an absent value) and duration \<open>D > 0\<close> seconds, the remaining time computed at
  any instant at or after \<open>T0 + D\<close> is \<open>0\<close>, in particular one second after the deadline. And
  the start or resume action, on an existing attempt of positive duration whose computed
  remaining time is at most \<open>0\<close>, in a component whose entry guard passes, is the automatic
  submit (\<open>handleSubmit True\<close>) and leaves \<open>isStarted\<close> and the countdown seed as they were.
\<close>

theorem expired_attempt_is_submitted:
  "(T0 \<noteq> 0 \<and> D > 0 \<and> nowMs \<ge> T0 + 1000 * D \<longrightarrow> computeRemainingSeconds nowMs (Some T0) D = 0)
   \<and> (T0 \<noteq> 0 \<and> D > 0 \<longrightarrow> computeRemainingSeconds (T0 + 1000 * D + 1000) (Some T0) D = 0)
   \<and> (firebaseUser c = Some uid \<and> testId c = Some tid \<and> tid \<noteq> [] \<and> educatorId c = Some eid
        \<and> eid \<noteq> [] \<and> testMeta c = Some meta \<and> attemptId c = Some aid \<and> aid \<noteq> []
        \<and> durationSec c > 0
        \<and> computeRemainingSeconds (now w) (attemptStartedAtMs c) (durationSec c) \<le> 0
      \<longrightarrow> handleStart (c, w) =
            handleSubmit True (c, toast ''Time is already over. Submitting your test...''
                                    (afterFullscreenRequest w))
        \<and> isStarted (fst (handleStart (c, w))) = isStarted c
        \<and> timerStartSeconds (fst (handleStart (c, w))) = timerStartSeconds c)"
proof -
  have a: "T0 \<noteq> 0 \<and> D > 0 \<and> nowMs \<ge> T0 + 1000 * D
             \<longrightarrow> computeRemainingSeconds nowMs (Some T0) D = 0"
    using remaining_after_deadline by blast
  have b: "T0 \<noteq> 0 \<and> D > 0 \<longrightarrow> computeRemainingSeconds (T0 + 1000 * D + 1000) (Some T0) D = 0"
    using remaining_after_deadline [of T0 D "T0 + 1000 * D + 1000"] by simp
  show ?thesis using a b handleStart_expired [of c uid tid eid meta aid w] handleSubmit_frame
    by simp
qed

theorem expired_attempt_is_submitted_witness:
  "computeRemainingSeconds 121000 (Some 1000) 60 = 0
   \<and> computeRemainingSeconds 62000 (Some 1000) 60 = 0
   \<and> handleStart (example_component\<lparr>isStarted := False\<rparr>, example_world_late) =
       handleSubmit True (example_component\<lparr>isStarted := False\<rparr>,
          toast ''Time is already over. Submitting your test...''
            (afterFullscreenRequest example_world_late))
   \<and> \<not> isStarted (fst (handleStart (example_component\<lparr>isStarted := False\<rparr>, example_world_late)))"
proof -
  let ?c = "example_component\<lparr>isStarted := False\<rparr>"
  have h: "firebaseUser ?c = Some ''u1'' \<and> testId ?c = Some ''t1'' \<and> ''t1'' \<noteq> []
        \<and> educatorId ?c = Some ''e1'' \<and> ''e1'' \<noteq> [] \<and> testMeta ?c = Some example_meta
        \<and> attemptId ?c = Some ''att1'' \<and> ''att1'' \<noteq> [] \<and> durationSec ?c > 0
        \<and> computeRemainingSeconds (now example_world_late) (attemptStartedAtMs ?c) (durationSec ?c) \<le> 0"
    by (simp add: computeRemainingSeconds_def example_component_def example_world_late_def
          example_world_def)
  note T = expired_attempt_is_submitted [of 1000 60 121000 ?c "''u1''" "''t1''" "''e1''"
      example_meta "''att1''" example_world_late]
  have a: "computeRemainingSeconds 121000 (Some 1000) 60 = 0" using T by simp
  have b: "computeRemainingSeconds 62000 (Some 1000) 60 = 0" using T by simp
  have c1: "handleStart (?c, example_world_late) =
       handleSubmit True (?c, toast ''Time is already over. Submitting your test...''
            (afterFullscreenRequest example_world_late))"
    using T h by blast
  have c2: "isStarted (fst (handleStart (?c, example_world_late))) = isStarted ?c"
    using T h by blast
  have d: "\<not> isStarted (fst (handleStart (?c, example_world_late)))"
    using c2 by simp
  show ?thesis using a b c1 d by blast
qed


section \<open>Properties of navigation and of the visited flag\<close>

lemma visitedKey_neq:
  "responseField q ''visited'' \<noteq> ''currentIndex''"
  "responseField q ''visited'' \<noteq> ''updatedAt''"
  "responseField q ''visited'' \<noteq> responseField q' ''answer''"
  "responseField q ''visited'' \<noteq> responseField q' ''answered''"
  "responseField q ''visited'' \<noteq> responseField q' ''markedForReview''"
proof -
  show "responseField q ''visited'' \<noteq> ''currentIndex''" "responseField q ''visited'' \<noteq> ''updatedAt''"
    by (simp_all add: responseField_def)
  have sfx: "q @ a = q' @ b \<Longrightarrow> suffix a b \<or> suffix b a" for a b :: string
  proof -
    assume e: "q @ a = q' @ b"
    have "suffix a (q @ a)" by (simp add: suffix_def)
    moreover have "suffix b (q @ a)" unfolding e by (simp add: suffix_def)
    ultimately
    show ?thesis by (rule suffix_same_cases)
  qed
  have n1: "\<not> (suffix ''.visited'' ''.answer'' \<or> suffix ''.answer'' ''.visited'')"
   and n2: "\<not> (suffix ''.visited'' ''.answered'' \<or> suffix ''.answered'' ''.visited'')"
   and n3: "\<not> (suffix ''.visited'' ''.markedForReview'' \<or> suffix ''.markedForReview'' ''.visited'')"
    by (simp_all add: suffix_to_prefix)
  show "responseField q ''visited'' \<noteq> responseField q' ''answer''"
    using sfx [of "''.visited''" "''.answer''"] n1 by (auto simp: responseField_def)
  show "responseField q ''visited'' \<noteq> responseField q' ''answered''"
    using sfx [of "''.visited''" "''.answered''"] n2 by (auto simp: responseField_def)
  show "responseField q ''visited'' \<noteq> responseField q' ''markedForReview''"
    using sfx [of "''.visited''" "''.markedForReview''"] n3 by (auto simp: responseField_def)
qed

lemma visitedKey_inj: "responseField q ''visited'' = responseField q' ''visited'' \<longleftrightarrow> q = q'"
  by (simp add: responseField_def)

lemma setsVisited_merge_other:
  "responseField q ''visited'' \<notin> fst ` set b \<Longrightarrow> setsVisited q (merge a b) = setsVisited q a"
  by (simp add: setsVisited_def field_merge_other)

lemma setsVisited_Nil: "\<not> setsVisited q []"
  by (simp add: setsVisited_def field_def)

lemma queue_other:
  "responseField q ''visited'' \<notin> fst ` set patch \<Longrightarrow>
   setsVisited q (pendingUpdate (queueAttemptUpdate patch c)) = setsVisited q (pendingUpdate c)"
  by (simp add: queueAttemptUpdate_def setsVisited_merge_other)

lemma queue_responses: "responses (queueAttemptUpdate patch c) = responses c"
  by (simp add: queueAttemptUpdate_def)

lemma goToIndex_visited:
  "setsVisited q (pendingUpdate (goToIndex i c)) = setsVisited q (pendingUpdate c)"
  "isVisited (goToIndex i c) q = isVisited c q"
  by (simp_all add: goToIndex_def Let_def queue_other visitedKey_neq isVisited_def queue_responses)

lemma heartbeat_visited:
  "setsVisited q (pendingUpdate (heartbeat c)) = setsVisited q (pendingUpdate c)"
  "isVisited (heartbeat c) q = isVisited c q"
  by (simp_all add: heartbeat_def queue_other visitedKey_neq isVisited_def queue_responses)

lemma handleAnswer_visited:
  "setsVisited q (pendingUpdate (handleAnswer a c)) = setsVisited q (pendingUpdate c)"
  "isVisited c q \<Longrightarrow> isVisited (handleAnswer a c) q"
  by (auto simp: handleAnswer_def queue_other visitedKey_neq isVisited_def queue_responses
        responseOr_def split: option.splits)

lemma handleMarkForReview_visited:
  "setsVisited q (pendingUpdate (handleMarkForReview c)) = setsVisited q (pendingUpdate c)"
  "isVisited c q \<Longrightarrow> isVisited (handleMarkForReview c) q"
  by (auto simp: handleMarkForReview_def Let_def queue_other visitedKey_neq isVisited_def
        queue_responses responseOr_def split: option.splits)

lemma handleClearResponse_visited:
  "setsVisited q (pendingUpdate (handleClearResponse c)) = setsVisited q (pendingUpdate c)"
  "isVisited c q \<Longrightarrow> isVisited (handleClearResponse c) q"
  by (auto simp: handleClearResponse_def queue_other visitedKey_neq isVisited_def queue_responses
        responseOr_def split: option.splits)

lemma markVisited_cases:
  "markVisited c = c \<or>
   (\<exists>q0 cur. responses c q0 = Some cur \<and> \<not> visited cur \<and> truthyStr (attemptId c) \<and>
      markVisited c = c\<lparr>responses := (responses c)(q0 \<mapsto> cur\<lparr>visited := True\<rparr>),
                        pendingUpdate := merge (pendingUpdate c)
                           [(responseField q0 ''visited'', VBool True),
                            (''currentIndex'', VNum (of_int (currentIndex c)))],
                        saveTimer := True\<rparr>)"
  by (auto simp: markVisited_def Let_def queueAttemptUpdate_def split: option.splits if_splits)

lemma markVisited_inv: "visitedInv q (c, w) \<Longrightarrow> visitedInv q (markVisited c, w)"
proof -
  assume inv: "visitedInv q (c, w)"
  from markVisited_cases [of c] show ?thesis
  proof
    assume "markVisited c = c" then show ?thesis using inv by simp
  next
    assume "\<exists>q0 cur. responses c q0 = Some cur \<and> \<not> visited cur \<and> truthyStr (attemptId c) \<and>
      markVisited c = c\<lparr>responses := (responses c)(q0 \<mapsto> cur\<lparr>visited := True\<rparr>),
                        pendingUpdate := merge (pendingUpdate c)
                           [(responseField q0 ''visited'', VBool True),
                            (''currentIndex'', VNum (of_int (currentIndex c)))],
                        saveTimer := True\<rparr>"
    then obtain q0 cur where r: "responses c q0 = Some cur" "\<not> visited cur"
      and m: "markVisited c = c\<lparr>responses := (responses c)(q0 \<mapsto> cur\<lparr>visited := True\<rparr>),
                        pendingUpdate := merge (pendingUpdate c)
                           [(responseField q0 ''visited'', VBool True),
                            (''currentIndex'', VNum (of_int (currentIndex c)))],
                        saveTimer := True\<rparr>"
      by blast
    show ?thesis
    proof (cases "q = q0")
      case True
      have nv: "\<not> isVisited c q" using r True by (simp add: isVisited_def)
      then have z: "visitedPatches q w = 0" "\<not> setsVisited q (pendingUpdate c)"
        using inv by (auto simp: visitedInv_def split: if_splits)
      show ?thesis using z True
        by (simp add: visitedInv_def m isVisited_def)
    next
      case False
      have k: "responseField q ''visited'' \<notin> fst ` set [(responseField q0 ''visited'', VBool True),
                            (''currentIndex'', VNum (of_int (currentIndex c)))]"
        using False by (simp add: visitedKey_inj visitedKey_neq)
      show ?thesis using inv False
        by (simp add: visitedInv_def m isVisited_def setsVisited_merge_other [OF k])
    qed
  qed
qed

lemma saveTimerFires_cases:
  "saveTimerFires (c, w) = (c, w) \<or>
   (\<exists>aid c' w'. saveTimerFires (c, w) = (c', w') \<and> pendingUpdate c' = [] \<and> responses c' = responses c
      \<and> writeLog w' = writeLog w @
           [\<lparr>w_docId = aid, w_payload = merge (pendingUpdate c) [(''updatedAt'', VServerTimestamp)],
             w_resolved = fst (updateDoc w aid (merge (pendingUpdate c) [(''updatedAt'', VServerTimestamp)]))\<rparr>])"
proof (cases "if saveTimer c then attemptId c else None")
  case None
  then show ?thesis by (simp add: saveTimerFires_def)
next
  case (Some aid)
  let ?P = "merge (pendingUpdate c) [(''updatedAt'', VServerTimestamp)]"
  obtain ok w1 where u: "updateDoc w aid ?P = (ok, w1)" by (cases "updateDoc w aid ?P")
  have l: "writeLog w1 = writeLog w @ [\<lparr>w_docId = aid, w_payload = ?P, w_resolved = ok\<rparr>]"
    using updateDoc_log [of w aid ?P] u by simp
  show ?thesis using Some u l
    by (auto simp: saveTimerFires_def Let_def toast_def)
qed

lemma saveTimerFires_inv: "visitedInv q (c, w) \<Longrightarrow> visitedInv q (saveTimerFires (c, w))"
proof -
  assume inv: "visitedInv q (c, w)"
  from saveTimerFires_cases [of c w] show ?thesis
  proof
    assume "saveTimerFires (c, w) = (c, w)" then show ?thesis using inv by simp
  next
    assume "\<exists>aid c' w'. saveTimerFires (c, w) = (c', w') \<and> pendingUpdate c' = [] \<and> responses c' = responses c
      \<and> writeLog w' = writeLog w @
           [\<lparr>w_docId = aid, w_payload = merge (pendingUpdate c) [(''updatedAt'', VServerTimestamp)],
             w_resolved = fst (updateDoc w aid (merge (pendingUpdate c) [(''updatedAt'', VServerTimestamp)]))\<rparr>]"
    then obtain aid c' w' where s: "saveTimerFires (c, w) = (c', w')" "pendingUpdate c' = []"
        "responses c' = responses c"
      and l: "writeLog w' = writeLog w @
           [\<lparr>w_docId = aid, w_payload = merge (pendingUpdate c) [(''updatedAt'', VServerTimestamp)],
             w_resolved = fst (updateDoc w aid (merge (pendingUpdate c) [(''updatedAt'', VServerTimestamp)]))\<rparr>]"
      by blast
    have k: "setsVisited q (merge (pendingUpdate c) [(''updatedAt'', VServerTimestamp)])
               = setsVisited q (pendingUpdate c)"
      by (rule setsVisited_merge_other) (simp add: visitedKey_neq)
    show ?thesis using inv
      by (auto simp: visitedInv_def s l visitedPatches_def k setsVisited_Nil isVisited_def
            split: if_splits)
  qed
qed

lemma flushPendingSaves_cases:
  "flushPendingSaves (c, w) = (True, c, w) \<or>
   flushPendingSaves (c, w) = (True, c\<lparr>saveTimer := False, pendingUpdate := []\<rparr>, w)
     \<and> pendingUpdate c = [] \<or>
   (\<exists>aid. flushPendingSaves (c, w) =
      (fst (updateDoc w aid (merge (pendingUpdate c) [(''updatedAt'', VServerTimestamp)])),
       c\<lparr>saveTimer := False, pendingUpdate := []\<rparr>,
       snd (updateDoc w aid (merge (pendingUpdate c) [(''updatedAt'', VServerTimestamp)]))))"
proof (cases "if truthyStr (attemptId c) then attemptId c else None")
  case None
  then show ?thesis by (simp add: flushPendingSaves_def)
next
  case (Some aid)
  show ?thesis
  proof (cases "pendingUpdate c = []")
    case True
    then show ?thesis using Some by (simp add: flushPendingSaves_def Let_def)
  next
    case False
    have "flushPendingSaves (c, w) =
      (fst (updateDoc w aid (merge (pendingUpdate c) [(''updatedAt'', VServerTimestamp)])),
       c\<lparr>saveTimer := False, pendingUpdate := []\<rparr>,
       snd (updateDoc w aid (merge (pendingUpdate c) [(''updatedAt'', VServerTimestamp)])))"
      using Some False by (simp add: flushPendingSaves_def Let_def split: prod.splits)
    then show ?thesis by blast
  qed
qed

lemma flushPendingSaves_inv:
  "visitedInv q (c, w) \<Longrightarrow> visitedInv q (snd (flushPendingSaves (c, w)))"
proof -
  assume inv: "visitedInv q (c, w)"
  have k: "setsVisited q (merge (pendingUpdate c) [(''updatedAt'', VServerTimestamp)])
             = setsVisited q (pendingUpdate c)"
    by (rule setsVisited_merge_other) (simp add: visitedKey_neq)
  from flushPendingSaves_cases [of c w] show ?thesis
  proof (elim disjE exE conjE)
    assume "flushPendingSaves (c, w) = (True, c, w)"
    then show ?thesis using inv by simp
  next
    assume "flushPendingSaves (c, w) = (True, c\<lparr>saveTimer := False, pendingUpdate := []\<rparr>, w)"
      "pendingUpdate c = []"
    then show ?thesis using inv by (simp add: visitedInv_def isVisited_def)
  next
    fix aid
    assume "flushPendingSaves (c, w) =
      (fst (updateDoc w aid (merge (pendingUpdate c) [(''updatedAt'', VServerTimestamp)])),
       c\<lparr>saveTimer := False, pendingUpdate := []\<rparr>,
       snd (updateDoc w aid (merge (pendingUpdate c) [(''updatedAt'', VServerTimestamp)])))"
    then show ?thesis using inv
      by (auto simp: visitedInv_def visitedPatches_def updateDoc_log k setsVisited_Nil
            isVisited_def split: if_splits)
  qed
qed

lemma finalizingPayload_not_visited: "\<not> setsVisited q (finalizingPayload c meta t)"
  by (simp add: setsVisited_def finalizingPayload_def submitPayload_def Let_def field_def
        responseField_def)

lemma flushPendingSaves_responses:
  "responses (fst (snd (flushPendingSaves (c, w)))) = responses c"
  by (simp add: flushPendingSaves_def Let_def split: option.splits prod.splits)

lemma handleSubmit_responses:
  "responses (fst (handleSubmit a (c, w))) = responses c"
  using flushPendingSaves_responses [of "c\<lparr>saving := True\<rparr>" w]
  by (auto simp: handleSubmit_def Let_def split: option.splits prod.splits)

lemma visitedInv_world:
  "visitedInv q (c, w) \<Longrightarrow> pendingUpdate c' = pendingUpdate c \<Longrightarrow> responses c' = responses c
   \<Longrightarrow> visitedPatches q w' = visitedPatches q w \<Longrightarrow> visitedInv q (c', w')"
  by (simp add: visitedInv_def isVisited_def)

lemma handleSubmit_inv: "visitedInv q (c, w) \<Longrightarrow> visitedInv q (handleSubmit a (c, w))"
proof -
  assume inv: "visitedInv q (c, w)"
  have inv0: "visitedInv q (c\<lparr>saving := True\<rparr>, w)"
    using inv by (simp add: visitedInv_def isVisited_def)
  obtain flushed c1 w1 where fl: "flushPendingSaves (c\<lparr>saving := True\<rparr>, w) = (flushed, c1, w1)"
    by (cases "flushPendingSaves (c\<lparr>saving := True\<rparr>, w)")
  have inv1: "visitedInv q (c1, w1)" using flushPendingSaves_inv [OF inv0] fl by simp
  have out: "visitedInv q (c1\<lparr>saving := False, submitDialogOpen := False\<rparr>, w')"
    if "visitedPatches q w' = visitedPatches q w1" for w'
    using inv1 that by (simp add: visitedInv_def isVisited_def)
  show ?thesis
  proof (cases "\<exists>aid uid meta. attemptId c = Some aid \<and> aid \<noteq> [] \<and> firebaseUser c = Some uid
                  \<and> truthyStr (testId c) \<and> truthyStr (educatorId c) \<and> testMeta c = Some meta")
    case False
    then have "handleSubmit a (c, w) = (c, w)"
      by (auto simp: handleSubmit_def split: option.splits)
    then show ?thesis using inv by simp
  next
    case True
    then obtain aid uid meta where r: "attemptId c = Some aid" "aid \<noteq> []" "firebaseUser c = Some uid"
        "truthyStr (testId c)" "truthyStr (educatorId c)" "testMeta c = Some meta"
      by blast
    obtain ok w2 where up: "updateDoc w1 aid (finalizingPayload c meta (now w1)) = (ok, w2)"
      by (cases "updateDoc w1 aid (finalizingPayload c meta (now w1))")
    have v2: "visitedPatches q w2 = visitedPatches q w1"
      using updateDoc_log [of w1 aid "finalizingPayload c meta (now w1)"] up
      by (simp add: visitedPatches_def finalizingPayload_not_visited)
    have v: "visitedPatches q
        (if \<not> flushed then toast ''Failed to submit test'' w1
         else if \<not> ok then toast ''Failed to submit test'' w2
         else (exitFullscreenSafe (w2\<lparr>localStorage := (localStorage w2)(attemptIdStorageKey c := None)\<rparr>))
                \<lparr>route := Some (resultsRoute aid a)\<rparr>) = visitedPatches q w1"
      using v2 by (simp add: visitedPatches_def toast_def exitFullscreenSafe_def)
    show ?thesis
      unfolding handleSubmit_ready [OF r fl up, of a] by (rule out) (rule v)
  qed
qed

lemma visitedInv_mono:
  "visitedInv q (c, w) \<Longrightarrow> setsVisited q (pendingUpdate c') = setsVisited q (pendingUpdate c) \<Longrightarrow>
   (isVisited c q \<Longrightarrow> isVisited c' q) \<Longrightarrow> visitedInv q (c', w)"
  by (auto simp: visitedInv_def split: if_splits)

lemma stepEvent_inv: "visitedInv q cw \<Longrightarrow> visitedInv q (stepEvent e cw)"
proof -
  assume inv: "visitedInv q cw"
  obtain c w where cw: "cw = (c, w)" by (cases cw)
  show ?thesis
  proof (cases e)
    case (GoTo i)
    then show ?thesis using inv cw
      by (simp add: visitedInv_mono [OF _ goToIndex_visited(1)] goToIndex_visited(2))
  next
    case EffectRuns
    then show ?thesis using inv cw by (simp add: markVisited_inv)
  next
    case (Answer a)
    then show ?thesis using inv cw
      by (simp add: visitedInv_mono [OF _ handleAnswer_visited(1)] handleAnswer_visited(2))
  next
    case MarkForReview
    then show ?thesis using inv cw
      by (simp add: visitedInv_mono [OF _ handleMarkForReview_visited(1)] handleMarkForReview_visited(2))
  next
    case ClearResponse
    then show ?thesis using inv cw
      by (simp add: visitedInv_mono [OF _ handleClearResponse_visited(1)] handleClearResponse_visited(2))
  next
    case Heartbeat
    then show ?thesis using inv cw
      by (simp add: visitedInv_mono [OF _ heartbeat_visited(1)] heartbeat_visited(2))
  next
    case TimerFires
    then show ?thesis using inv cw by (simp add: saveTimerFires_inv)
  next
    case (Submit isAuto)
    then show ?thesis using inv cw by (simp add: handleSubmit_inv)
  qed
qed

lemma runEvents_inv: "visitedInv q cw \<Longrightarrow> visitedInv q (runEvents es cw)"
  unfolding runEvents_def by (induction es arbitrary: cw) (simp_all add: stepEvent_inv)

lemma visitedInv_bound: "visitedInv q cw \<Longrightarrow> visitedPatches q (snd cw) \<le> 1"
  by (auto simp: visitedInv_def split: if_splits)

lemma assign_same: "map_of d k = Some v \<Longrightarrow> assign k v d = d"
  by (induction d) (auto split: if_splits)

lemma merge_single: "merge d [(k, v)] = assign k v d"
  by (simp add: merge_def)

lemma goToIndex_fixed:
  assumes "currentIndex c = max 0 (min i (int (length (questions c)) - 1))"
    and "truthyStr (attemptId c) \<Longrightarrow>
           field (pendingUpdate c) ''currentIndex'' = Some (VNum (of_int (currentIndex c))) \<and> saveTimer c"
  shows "goToIndex i c = c"
proof (cases "truthyStr (attemptId c)")
  case True
  have "assign ''currentIndex'' (VNum (of_int (currentIndex c))) (pendingUpdate c) = pendingUpdate c"
    using assms(2) [OF True] by (simp add: assign_same field_def)
  then show ?thesis using True assms
    by (simp add: goToIndex_def Let_def queueAttemptUpdate_def merge_single)
next
  case False
  then show ?thesis using assms(1) by (simp add: goToIndex_def Let_def)
qed

lemma goToIndex_props:
  "currentIndex (goToIndex i c) = max 0 (min i (int (length (questions c)) - 1))"
  "questions (goToIndex i c) = questions c"
  "attemptId (goToIndex i c) = attemptId c"
  "responses (goToIndex i c) = responses c"
  "isStarted (goToIndex i c) = isStarted c"
  "truthyStr (attemptId c) \<Longrightarrow>
     field (pendingUpdate (goToIndex i c)) ''currentIndex''
        = Some (VNum (of_int (max 0 (min i (int (length (questions c)) - 1))))) \<and> saveTimer (goToIndex i c)"
  by (simp_all add: goToIndex_def Let_def queueAttemptUpdate_def field_merge)

lemma markVisited_props:
  "currentIndex (markVisited c) = currentIndex c"
  "questions (markVisited c) = questions c"
  "attemptId (markVisited c) = attemptId c"
  "isStarted (markVisited c) = isStarted c"
  by (auto simp: markVisited_def Let_def queueAttemptUpdate_def split: option.splits)

lemma markVisited_keeps_index:
  "field (pendingUpdate c) ''currentIndex'' = Some (VNum (of_int (currentIndex c))) \<and> saveTimer c \<Longrightarrow>
   field (pendingUpdate (markVisited c)) ''currentIndex'' = Some (VNum (of_int (currentIndex c)))
     \<and> saveTimer (markVisited c)"
  by (auto simp: markVisited_def Let_def queueAttemptUpdate_def field_merge split: option.splits)

lemma markVisited_idem: "markVisited (markVisited c) = markVisited c"
  by (auto simp: markVisited_def Let_def queueAttemptUpdate_def currentQuestion_def
        split: option.splits if_splits)

lemma navigate_idem: "navigate i (navigate i c) = navigate i c"
proof -
  let ?c1 = "goToIndex i c"
  let ?c2 = "markVisited ?c1"
  have "goToIndex i ?c2 = ?c2"
  proof (rule goToIndex_fixed)
    show "currentIndex ?c2 = max 0 (min i (int (length (questions ?c2)) - 1))"
      by (simp add: markVisited_props goToIndex_props)
    show "field (pendingUpdate ?c2) ''currentIndex'' = Some (VNum (of_int (currentIndex ?c2))) \<and> saveTimer ?c2"
      if "truthyStr (attemptId ?c2)"
    proof -
      have t: "truthyStr (attemptId c)" using that by (simp add: markVisited_props goToIndex_props)
      have "field (pendingUpdate ?c1) ''currentIndex'' = Some (VNum (of_int (currentIndex ?c1))) \<and> saveTimer ?c1"
        using goToIndex_props(6) [OF t, of i] by (simp add: goToIndex_props(1))
      then show ?thesis using markVisited_keeps_index [of ?c1] by (simp add: markVisited_props)
    qed
  qed
  then show ?thesis by (simp add: navigate_def markVisited_idem)
qed

lemma navigate_visited:
  assumes "0 \<le> i" "i < int (length (questions c))"
    "responses c (q_id (questions c ! nat i)) = Some r" "visited r"
  shows "navigate i c = goToIndex i c"
proof -
  have n: "max 0 (min i (int (length (questions c)) - 1)) = i" using assms(1,2) by simp
  have cq: "currentQuestion (goToIndex i c) = Some (questions c ! nat i)"
    using assms(1,2) by (simp add: currentQuestion_def goToIndex_props n)
  show ?thesis using assms(3,4)
    by (simp add: navigate_def markVisited_def cq goToIndex_props Let_def)
qed

lemma navigate_first:
  assumes "isStarted c" "truthyStr (attemptId c)" "0 \<le> i" "i < int (length (questions c))"
    "responses c (q_id (questions c ! nat i)) = Some r" "\<not> visited r"
  shows "responses (navigate i c) = (responses c)(q_id (questions c ! nat i) \<mapsto> r\<lparr>visited := True\<rparr>)"
    "setsVisited (q_id (questions c ! nat i)) (pendingUpdate (navigate i c))"
    "field (pendingUpdate (navigate i c)) ''currentIndex'' = Some (VNum (of_int i))"
proof -
  have n: "max 0 (min i (int (length (questions c)) - 1)) = i" using assms(3,4) by simp
  have cq: "currentQuestion (goToIndex i c) = Some (questions c ! nat i)"
    using assms(3,4) by (simp add: currentQuestion_def goToIndex_props n)
  have m: "navigate i c =
     queueAttemptUpdate [(responseField (q_id (questions c ! nat i)) ''visited'', VBool True),
                         (''currentIndex'', VNum (of_int i))]
       ((goToIndex i c)\<lparr>responses := (responses c)(q_id (questions c ! nat i) \<mapsto> r\<lparr>visited := True\<rparr>)\<rparr>)"
    using assms by (simp add: navigate_def markVisited_def cq goToIndex_props Let_def n)
  show "responses (navigate i c) = (responses c)(q_id (questions c ! nat i) \<mapsto> r\<lparr>visited := True\<rparr>)"
    by (simp add: m queueAttemptUpdate_def)
  show "setsVisited (q_id (questions c ! nat i)) (pendingUpdate (navigate i c))"
    using assms(2) by (simp add: m queueAttemptUpdate_def goToIndex_props setsVisited_def field_merge visitedKey_neq)
  show "field (pendingUpdate (navigate i c)) ''currentIndex'' = Some (VNum (of_int i))"
    using assms(2) by (simp add: m queueAttemptUpdate_def goToIndex_props field_merge)
qed

lemma runEvents_visited_stable:
  "isVisited c q \<Longrightarrow> isVisited (fst (runEvents es (c, w))) q"
proof (induction es arbitrary: c w)
  case Nil
  then show ?case by (simp add: runEvents_def)
next
  case (Cons e es)
  obtain c' w' where s: "stepEvent e (c, w) = (c', w')" by (cases "stepEvent e (c, w)")
  have "isVisited c' q"
  proof (cases e)
    case (GoTo i) then show ?thesis using s Cons.prems by (auto simp: goToIndex_visited)
  next
    case EffectRuns
    from markVisited_cases [of c] show ?thesis using s Cons.prems EffectRuns
      by (auto simp: isVisited_def)
  next
    case (Answer a) then show ?thesis using s Cons.prems by (auto simp: handleAnswer_visited)
  next
    case MarkForReview then show ?thesis using s Cons.prems by (auto simp: handleMarkForReview_visited)
  next
    case ClearResponse then show ?thesis using s Cons.prems by (auto simp: handleClearResponse_visited)
  next
    case Heartbeat then show ?thesis using s Cons.prems by (auto simp: heartbeat_visited)
  next
    case TimerFires
    from saveTimerFires_cases [of c w] show ?thesis using s Cons.prems TimerFires
      by (auto simp: isVisited_def)
  next
    case (Submit isAuto)
    then show ?thesis using s Cons.prems handleSubmit_responses [of isAuto c w]
      by (auto simp: isVisited_def)
  qed
  then have "isVisited (fst (runEvents es (c', w'))) q" by (rule Cons.IH)
  then show ?case using s by (simp add: runEvents_def)
qed

text \<open>No patch the component queues names the status field: a pending patch without it stays
  without it over every event.\<close>

lemma handleSubmit_pending:
  "pendingUpdate (fst (handleSubmit a (c, w))) = pendingUpdate c
   \<or> pendingUpdate (fst (handleSubmit a (c, w))) = []"
  by (auto simp: handleSubmit_def flushPendingSaves_def Let_def split: option.splits prod.splits)

lemma stepEvent_no_status:
  assumes "''status'' \<notin> fst ` set (pendingUpdate c)"
  shows "''status'' \<notin> fst ` set (pendingUpdate (fst (stepEvent e (c, w))))"
proof (cases e)
  case (GoTo i)
  then show ?thesis using assms by (simp add: goToIndex_def Let_def queueAttemptUpdate_def keys_merge)
next
  case EffectRuns
  from markVisited_cases [of c] show ?thesis
  proof
    assume "markVisited c = c"
    then show ?thesis using assms EffectRuns by simp
  next
    assume "\<exists>q0 cur. responses c q0 = Some cur \<and> \<not> visited cur \<and> truthyStr (attemptId c) \<and>
      markVisited c = c\<lparr>responses := (responses c)(q0 \<mapsto> cur\<lparr>visited := True\<rparr>),
                        pendingUpdate := merge (pendingUpdate c)
                           [(responseField q0 ''visited'', VBool True),
                            (''currentIndex'', VNum (of_int (currentIndex c)))],
                        saveTimer := True\<rparr>"
    then obtain q0 where
      "pendingUpdate (markVisited c) =
       merge (pendingUpdate c) [(responseField q0 ''visited'', VBool True),
                                (''currentIndex'', VNum (of_int (currentIndex c)))]"
      by auto
    then have
      "fst ` set (pendingUpdate (markVisited c)) =
       fst ` set (pendingUpdate c) \<union> {responseField q0 ''visited'', ''currentIndex''}"
      by (simp add: keys_merge)
    then show ?thesis using assms EffectRuns by (simp add: responseField_def)
  qed
next
  case (Answer a)
  then show ?thesis using assms
    by (auto simp: handleAnswer_def queueAttemptUpdate_def keys_merge responseField_def
          split: option.splits)
next
  case MarkForReview
  then show ?thesis using assms
    by (auto simp: handleMarkForReview_def Let_def queueAttemptUpdate_def keys_merge
          responseField_def split: option.splits)
next
  case ClearResponse
  then show ?thesis using assms
    by (auto simp: handleClearResponse_def queueAttemptUpdate_def keys_merge responseField_def
          split: option.splits)
next
  case Heartbeat
  then show ?thesis using assms by (simp add: heartbeat_def queueAttemptUpdate_def keys_merge)
next
  case TimerFires
  from saveTimerFires_cases [of c w] show ?thesis using assms TimerFires by auto
next
  case (Submit isAuto)
  from handleSubmit_pending [of isAuto c w] show ?thesis using assms Submit by auto
qed

lemma runEvents_no_status:
  "''status'' \<notin> fst ` set (pendingUpdate c) \<Longrightarrow>
   ''status'' \<notin> fst ` set (pendingUpdate (fst (runEvents es (c, w))))"
proof (induction es arbitrary: c w)
  case Nil
  then show ?case by (simp add: runEvents_def)
next
  case (Cons e es)
  obtain c' w' where s: "stepEvent e (c, w) = (c', w')" by (cases "stepEvent e (c, w)")
  have "''status'' \<notin> fst ` set (pendingUpdate c')"
    using stepEvent_no_status [OF Cons.prems, of e w] s by simp
  then have "''status'' \<notin> fst ` set (pendingUpdate (fst (runEvents es (c', w'))))"
    by (rule Cons.IH)
  then show ?case using s by (simp add: runEvents_def)
qed

text \<open>
  Claim C8. Marking a question visited is idempotent. Navigating twice to a question is the
  same as navigating once. For a started attempt, navigating to a question whose response
  is already visited leaves the response map as it is and queues the current index only: no
  payload gains a write of a visited flag. The first navigation to a question not yet
  visited sets its flag and queues the flag together with the current index in one pending
  patch. Over any sequence of events of the attempt (navigations, runs of the effect,
  answers, review marks, clearings, heartbeats, the save timer, submits), starting where no write of
  the flag of a question is issued or pending, at most one remote write sets that flag; and
  a flag once set stays set.
\<close>

theorem visited_marked_once:
  "navigate j (navigate j c0) = navigate j c0
   \<and> (isStarted c \<and> truthyStr (attemptId c) \<and> 0 \<le> i \<and> i < int (length (questions c))
        \<and> responses c (q_id (questions c ! nat i)) = Some r \<and> visited r
      \<longrightarrow> responses (navigate i c) = responses c
        \<and> pendingUpdate (navigate i c)
            = merge (pendingUpdate c) [(''currentIndex'', VNum (of_int i))]
        \<and> setsVisited q (pendingUpdate (navigate i c)) = setsVisited q (pendingUpdate c))
   \<and> (isStarted c' \<and> truthyStr (attemptId c') \<and> 0 \<le> i' \<and> i' < int (length (questions c'))
        \<and> responses c' (q_id (questions c' ! nat i')) = Some r' \<and> \<not> visited r'
      \<longrightarrow> responses (navigate i' c')
            = (responses c')(q_id (questions c' ! nat i') \<mapsto> r'\<lparr>visited := True\<rparr>)
        \<and> setsVisited (q_id (questions c' ! nat i')) (pendingUpdate (navigate i' c'))
        \<and> field (pendingUpdate (navigate i' c')) ''currentIndex'' = Some (VNum (of_int i')))
   \<and> (visitedPatches q1 w1 = 0 \<and> \<not> setsVisited q1 (pendingUpdate c1)
      \<longrightarrow> visitedPatches q1 (snd (runEvents es (c1, w1))) \<le> 1)
   \<and> (isVisited c2 q2 \<longrightarrow> isVisited (fst (runEvents es2 (c2, w2))) q2)"
proof -
  have b: "isStarted c \<and> truthyStr (attemptId c) \<and> 0 \<le> i \<and> i < int (length (questions c))
        \<and> responses c (q_id (questions c ! nat i)) = Some r \<and> visited r
      \<longrightarrow> responses (navigate i c) = responses c
        \<and> pendingUpdate (navigate i c)
            = merge (pendingUpdate c) [(''currentIndex'', VNum (of_int i))]
        \<and> setsVisited q (pendingUpdate (navigate i c)) = setsVisited q (pendingUpdate c)"
  proof
    assume a: "isStarted c \<and> truthyStr (attemptId c) \<and> 0 \<le> i \<and> i < int (length (questions c))
        \<and> responses c (q_id (questions c ! nat i)) = Some r \<and> visited r"
    then have n: "navigate i c = goToIndex i c" by (simp add: navigate_visited)
    have m: "max 0 (min i (int (length (questions c)) - 1)) = i" using a by simp
    show "responses (navigate i c) = responses c
        \<and> pendingUpdate (navigate i c)
            = merge (pendingUpdate c) [(''currentIndex'', VNum (of_int i))]
        \<and> setsVisited q (pendingUpdate (navigate i c)) = setsVisited q (pendingUpdate c)"
      using a by (simp add: n goToIndex_props goToIndex_visited)
                 (simp add: goToIndex_def Let_def queueAttemptUpdate_def m)
  qed
  have d: "visitedPatches q1 w1 = 0 \<and> \<not> setsVisited q1 (pendingUpdate c1)
      \<longrightarrow> visitedPatches q1 (snd (runEvents es (c1, w1))) \<le> 1"
  proof
    assume "visitedPatches q1 w1 = 0 \<and> \<not> setsVisited q1 (pendingUpdate c1)"
    then have "visitedInv q1 (c1, w1)" by (simp add: visitedInv_def)
    then have "visitedInv q1 (runEvents es (c1, w1))" by (rule runEvents_inv)
    then show "visitedPatches q1 (snd (runEvents es (c1, w1))) \<le> 1" by (rule visitedInv_bound)
  qed
  show ?thesis
    using navigate_idem [of j c0] b navigate_first [of c' i' r'] d
      runEvents_visited_stable [of c2 q2 es2 w2]
    by blast
qed

theorem visited_marked_once_witness:
  "responses (navigate 0 example_component) = responses example_component
   \<and> setsVisited ''q2'' (pendingUpdate (navigate 1 example_fresh))
   \<and> visitedPatches ''q2''
        (snd (runEvents [GoTo 1, EffectRuns, TimerFires, GoTo 0, EffectRuns, GoTo 1, EffectRuns,
                         Submit False] (example_fresh, example_world))) \<le> 1
   \<and> isVisited (fst (runEvents [Answer ''0'', GoTo 1, EffectRuns] (example_component, example_world)))
        ''q1''"
proof -
  have h1: "isStarted example_component \<and> truthyStr (attemptId example_component) \<and> (0::int) \<le> 0
        \<and> 0 < int (length (questions example_component))
        \<and> responses example_component (q_id (questions example_component ! nat 0))
            = Some (example_response ''1'')
        \<and> visited (example_response ''1'')"
    by (simp add: example_component_def truthyStr_def example_mcq_def example_responses_def
          example_response_def)
  have h2: "isStarted example_fresh \<and> truthyStr (attemptId example_fresh) \<and> (0::int) \<le> 1
        \<and> 1 < int (length (questions example_fresh))
        \<and> responses example_fresh (q_id (questions example_fresh ! nat 1)) = Some initResponse
        \<and> \<not> visited initResponse"
    by (simp add: example_fresh_def example_component_def truthyStr_def example_mcq_def
          buildInitResponses_def initResponse_def)
  have h3: "visitedPatches ''q2'' example_world = 0 \<and> \<not> setsVisited ''q2'' (pendingUpdate example_fresh)"
    by (simp add: visitedPatches_def example_world_def example_fresh_def setsVisited_def field_def)
  have h4: "isVisited example_component ''q1''"
    by (simp add: isVisited_def example_component_def example_responses_def example_response_def)
  have q: "q_id (questions example_fresh ! nat 1) = ''q2''"
    by (simp add: example_fresh_def example_component_def example_mcq_def)
  note T = visited_marked_once [of 0 example_component example_component 0 "example_response ''1''"
      "''q1''" example_fresh 1 initResponse "''q2''" example_world example_fresh
      "[GoTo 1, EffectRuns, TimerFires, GoTo 0, EffectRuns, GoTo 1, EffectRuns, Submit False]"
      example_component "''q1''" "[Answer ''0'', GoTo 1, EffectRuns]" example_world]
  have a: "responses (navigate 0 example_component) = responses example_component"
    using T h1 by blast
  have b: "setsVisited (q_id (questions example_fresh ! nat 1)) (pendingUpdate (navigate 1 example_fresh))"
    using T h2 by blast
  show ?thesis using a b [unfolded q] T h3 h4 by blast
qed

section \<open>Properties of loading and of resume discovery\<close>

lemma allResolve_next:
  "False \<notin> set (net w) \<Longrightarrow> nextResolves w \<and> (False \<notin> set (net (afterCall w)))"
  by (cases "net w") (auto simp: nextResolves_def afterCall_def)

lemma afterCall_frame:
  "testDocs (afterCall w) = testDocs w" "questionDocs (afterCall w) = questionDocs w"
  "attempts (afterCall w) = attempts w" "runQuery (afterCall w) = runQuery w"
  "localStorage (afterCall w) = localStorage w"
  by (simp_all add: afterCall_def)

lemma loadAttemptById_accepts:
  "fst (loadAttemptById w uid tid eid i) = Inr (Some (j, a)) \<longleftrightarrow>
     nextResolves w \<and> j = i \<and> attempts w i = Some a
     \<and> field a ''studentId'' = Some (VStr uid) \<and> field a ''testId'' = Some (VStr tid)
     \<and> field a ''educatorId'' = Some (VStr eid) \<and> field a ''status'' = Some (VStr ''in_progress'')"
  by (cases "attempts w i") (auto simp: loadAttemptById_def getAttemptDoc_def)

lemma loadAttemptById_world: "snd (loadAttemptById w uid tid eid i) = afterCall w"
  by (auto simp: loadAttemptById_def getAttemptDoc_def split: option.splits)

lemma loadAttemptById_rejects:
  "nextResolves w \<Longrightarrow> attempts w i = Some a \<Longrightarrow>
   field a ''studentId'' \<noteq> Some (VStr uid) \<or> field a ''testId'' \<noteq> Some (VStr tid)
     \<or> field a ''status'' = Some (VStr ''submitted'') \<Longrightarrow>
   fst (loadAttemptById w uid tid eid i) = Inr None"
  by (auto simp: loadAttemptById_def getAttemptDoc_def)

lemma findAttempt_fallback:
  assumes "localStorage w key = Some i" "i \<noteq> []"
    "fst (loadAttemptById w uid tid eid i) = Inr None" "nextResolves (afterCall w)"
  shows "fst (findAttempt key w uid tid eid) =
           (case runQuery w (resumeQuery uid tid eid) of
              [] \<Rightarrow> Inr None | (j, d) # rest \<Rightarrow> Inr (Some (j, d)))"
    "localStorage (snd (findAttempt key w uid tid eid)) =
           (case runQuery w (resumeQuery uid tid eid) of
              [] \<Rightarrow> (localStorage w)(key := None) | (j, d) # rest \<Rightarrow> (localStorage w)(key \<mapsto> j))"
proof -
  have l: "loadAttemptById w uid tid eid i = (Inr None, afterCall w)"
    using assms(3) loadAttemptById_world [of w uid tid eid i]
    by (cases "loadAttemptById w uid tid eid i") simp
  have n: "nextResolves ((afterCall w)\<lparr>localStorage := (localStorage w)(key := None)\<rparr>)"
    using assms(4) by (simp add: nextResolves_def afterCall_def)
  show "fst (findAttempt key w uid tid eid) =
           (case runQuery w (resumeQuery uid tid eid) of
              [] \<Rightarrow> Inr None | (j, d) # rest \<Rightarrow> Inr (Some (j, d)))"
    using assms(1,2) n
    by (simp add: findAttempt_def Let_def truthyStr_def l getAttemptDocs_def afterCall_frame
          split: list.splits)
  show "localStorage (snd (findAttempt key w uid tid eid)) =
           (case runQuery w (resumeQuery uid tid eid) of
              [] \<Rightarrow> (localStorage w)(key := None) | (j, d) # rest \<Rightarrow> (localStorage w)(key \<mapsto> j))"
    using assms(1,2) n
    by (simp add: findAttempt_def Let_def truthyStr_def l getAttemptDocs_def afterCall_frame
          afterCall_def split: list.splits)
qed

lemma findAttempt_accepts:
  assumes "localStorage w key = Some i" "i \<noteq> []"
    "fst (loadAttemptById w uid tid eid i) = Inr (Some (i, a))"
  shows "findAttempt key w uid tid eid = (Inr (Some (i, a)), afterCall w)"
proof -
  have l: "loadAttemptById w uid tid eid i = (Inr (Some (i, a)), afterCall w)"
    using assms(3) loadAttemptById_world [of w uid tid eid i]
    by (cases "loadAttemptById w uid tid eid i") simp
  show ?thesis using assms(1,2) by (simp add: findAttempt_def Let_def truthyStr_def l)
qed

text \<open>
  Claim C3. A cached attempt identifier is trusted only after the fetched attempt is
  checked: \<open>loadAttemptById\<close> returns the attempt exactly when the read resolves, the document
  exists, its \<^verbatim>\<open>studentId\<close> is the signed-in student, its \<^verbatim>\<open>testId\<close> the test taken, its
  \<^verbatim>\<open>educatorId\<close> the resolved educator and its status \<^verbatim>\<open>in_progress\<close>; resume discovery then
  takes it as the attempt found. An attempt of another student, of another test, or already
  submitted makes the loader return \<^verbatim>\<open>null\<close>; and whenever the loader returns \<^verbatim>\<open>null\<close> for the
  cached identifier, the cache entry is removed and the attempt found is the first result,
  if any, of the query on the student, test, educator and status \<^verbatim>\<open>in_progress\<close>, ordered by
  \<^verbatim>\<open>createdAt\<close> descending and limited to one (whose identifier is then cached).
\<close>

theorem cached_attempt_validated:
  "(fst (loadAttemptById w uid tid eid i) = Inr (Some (j, a)) \<longleftrightarrow>
       nextResolves w \<and> j = i \<and> attempts w i = Some a
       \<and> field a ''studentId'' = Some (VStr uid) \<and> field a ''testId'' = Some (VStr tid)
       \<and> field a ''educatorId'' = Some (VStr eid) \<and> field a ''status'' = Some (VStr ''in_progress''))
   \<and> (localStorage w key = Some i \<and> i \<noteq> []
        \<and> fst (loadAttemptById w uid tid eid i) = Inr (Some (i, a))
      \<longrightarrow> findAttempt key w uid tid eid = (Inr (Some (i, a)), afterCall w))
   \<and> (nextResolves w' \<and> attempts w' i' = Some a'
        \<and> (field a' ''studentId'' \<noteq> Some (VStr uid) \<or> field a' ''testId'' \<noteq> Some (VStr tid)
             \<or> field a' ''status'' = Some (VStr ''submitted''))
      \<longrightarrow> fst (loadAttemptById w' uid tid eid i') = Inr None)
   \<and> (localStorage w' key = Some i' \<and> i' \<noteq> []
        \<and> fst (loadAttemptById w' uid tid eid i') = Inr None \<and> nextResolves (afterCall w')
      \<longrightarrow> fst (findAttempt key w' uid tid eid) =
             (case runQuery w' (resumeQuery uid tid eid) of
                [] \<Rightarrow> Inr None | (j, d) # rest \<Rightarrow> Inr (Some (j, d)))
        \<and> localStorage (snd (findAttempt key w' uid tid eid)) =
             (case runQuery w' (resumeQuery uid tid eid) of
                [] \<Rightarrow> (localStorage w')(key := None)
              | (j, d) # rest \<Rightarrow> (localStorage w')(key \<mapsto> j))
        \<and> orderedBy (resumeQuery uid tid eid) = (''createdAt'', Desc)
        \<and> limitTo (resumeQuery uid tid eid) = 1
        \<and> wheres (resumeQuery uid tid eid) =
             [(''studentId'', VStr uid), (''testId'', VStr tid), (''educatorId'', VStr eid),
              (''status'', VStr ''in_progress'')])"
  using loadAttemptById_accepts [of w uid tid eid i j a]
    findAttempt_accepts [of w key i uid tid eid a]
    loadAttemptById_rejects [of w' i' a' uid tid eid]
    findAttempt_fallback [of w' key i' uid tid eid]
  by (simp add: resumeQuery_def)

lemma ex_sub:
  "nextResolves example_world_submitted"
  "nextResolves (afterCall example_world_submitted)"
  "localStorage example_world_submitted ''cbt_attempt_id__main__t1'' = Some ''att1''"
  "attempts example_world_submitted ''att1'' =
     Some [(''studentId'', VStr ''u1''), (''testId'', VStr ''t1''),
           (''educatorId'', VStr ''e1''), (''status'', VStr ''submitted'')]"
  "runQuery example_world_submitted (resumeQuery ''u1'' ''t1'' ''e1'') = [(''att2'', example_attempt)]"
  by (simp_all add: example_world_submitted_def example_world_def nextResolves_def afterCall_def)

lemma ex_res:
  "nextResolves example_world"
  "localStorage example_world ''cbt_attempt_id__main__t1'' = Some ''att1''"
  "attempts example_world ''att1'' = Some example_attempt"
  by (simp_all add: example_world_def nextResolves_def)

theorem cached_attempt_validated_witness:
  "findAttempt ''cbt_attempt_id__main__t1'' example_world ''u1'' ''t1'' ''e1''
     = (Inr (Some (''att1'', example_attempt)), afterCall example_world)
   \<and> fst (loadAttemptById example_world_submitted ''u1'' ''t1'' ''e1'' ''att1'') = Inr None
   \<and> fst (findAttempt ''cbt_attempt_id__main__t1'' example_world_submitted ''u1'' ''t1'' ''e1'')
       = Inr (Some (''att2'', example_attempt))
   \<and> localStorage (snd (findAttempt ''cbt_attempt_id__main__t1'' example_world_submitted
                          ''u1'' ''t1'' ''e1'')) ''cbt_attempt_id__main__t1'' = Some ''att2''"
proof -
  let ?sub = "[(''studentId'', VStr ''u1''), (''testId'', VStr ''t1''),
               (''educatorId'', VStr ''e1''), (''status'', VStr ''submitted'')]"
  note T = cached_attempt_validated [of example_world "''u1''" "''t1''" "''e1''" "''att1''"
      "''att1''" example_attempt "''cbt_attempt_id__main__t1''" example_world_submitted "''att1''" ?sub]
  have f: "field example_attempt ''studentId'' = Some (VStr ''u1'')"
          "field example_attempt ''testId'' = Some (VStr ''t1'')"
          "field example_attempt ''educatorId'' = Some (VStr ''e1'')"
          "field example_attempt ''status'' = Some (VStr ''in_progress'')"
          "field ?sub ''status'' = Some (VStr ''submitted'')"
    by (simp_all add: example_attempt_def field_def)
  have acc: "fst (loadAttemptById example_world ''u1'' ''t1'' ''e1'' ''att1'')
               = Inr (Some (''att1'', example_attempt))"
    using T ex_res f by blast
  have a: "findAttempt ''cbt_attempt_id__main__t1'' example_world ''u1'' ''t1'' ''e1''
     = (Inr (Some (''att1'', example_attempt)), afterCall example_world)"
    using T acc ex_res(2) by blast
  have rej: "fst (loadAttemptById example_world_submitted ''u1'' ''t1'' ''e1'' ''att1'') = Inr None"
    using T ex_sub f(5) by blast
  have fb: "fst (findAttempt ''cbt_attempt_id__main__t1'' example_world_submitted ''u1'' ''t1'' ''e1'') =
             (case runQuery example_world_submitted (resumeQuery ''u1'' ''t1'' ''e1'') of
                [] \<Rightarrow> Inr None | (j, d) # rest \<Rightarrow> Inr (Some (j, d)))
        \<and> localStorage (snd (findAttempt ''cbt_attempt_id__main__t1'' example_world_submitted ''u1'' ''t1'' ''e1'')) =
             (case runQuery example_world_submitted (resumeQuery ''u1'' ''t1'' ''e1'') of
                [] \<Rightarrow> (localStorage example_world_submitted)(''cbt_attempt_id__main__t1'' := None)
              | (j, d) # rest \<Rightarrow> (localStorage example_world_submitted)(''cbt_attempt_id__main__t1'' \<mapsto> j))"
    using T rej ex_sub(2,3) by blast
  show ?thesis using a rej fb by (simp add: ex_sub(5))
qed

lemma loadTest_owned:
  assumes r: "False \<notin> set (net w)"
    and d: "testDocs w [''educators'', eid, ''my_tests'', tid] = Some d1"
  shows "loadTest w eid tid =
     (if questionDocs w [''educators'', eid, ''my_tests'', tid, ''questions''] = []
      then Inl (Failed ''No questions found in this test'')
      else Inr (metaOf tid d1, map (\<lambda>(i, q). mapQuestion i q)
                  (questionDocs w [''educators'', eid, ''my_tests'', tid, ''questions''])),
      afterCall (afterCall w))"
proof -
  have n1: "nextResolves w" and n2: "nextResolves (afterCall w)"
    using allResolve_next [OF r] allResolve_next [of "afterCall w"] by auto
  show ?thesis using n1 n2 d
    by (simp add: loadTest_def testSources_def getTestDoc_def getQuestionDocs_def afterCall_frame)
qed

lemma loadTest_series:
  assumes r: "False \<notin> set (net w)"
    and d: "testDocs w [''educators'', eid, ''my_tests'', tid] = None"
       "testDocs w [''test_series'', tid] = Some d2"
  shows "loadTest w eid tid =
     (if questionDocs w [''test_series'', tid, ''questions''] = []
      then Inl (Failed ''No questions found in this test'')
      else Inr (metaOf tid d2, map (\<lambda>(i, q). mapQuestion i q)
                  (questionDocs w [''test_series'', tid, ''questions''])),
      afterCall (afterCall (afterCall w)))"
proof -
  have n1: "nextResolves w" and n2: "nextResolves (afterCall w)"
    and n3: "nextResolves (afterCall (afterCall w))"
    using allResolve_next [OF r] allResolve_next [of "afterCall w"]
      allResolve_next [of "afterCall (afterCall w)"] by auto
  show ?thesis using n1 n2 n3 d
    by (simp add: loadTest_def testSources_def getTestDoc_def getQuestionDocs_def afterCall_frame)
qed

lemma loadTest_missing:
  assumes r: "False \<notin> set (net w)"
    and d: "testDocs w [''educators'', eid, ''my_tests'', tid] = None"
       "testDocs w [''test_series'', tid] = None"
  shows "loadTest w eid tid = (Inl (Failed ''Test not found''), afterCall (afterCall w))"
proof -
  have n1: "nextResolves w" and n2: "nextResolves (afterCall w)"
    using allResolve_next [OF r] allResolve_next [of "afterCall w"] by auto
  show ?thesis using n1 n2 d
    by (simp add: loadTest_def testSources_def getTestDoc_def afterCall_frame)
qed

text \<open>
  Claim C9. With every read resolving, loading a test tries the educator's own test first
  and the shared test series second. When the educator's document exists, the result is its
  meta data with all the questions of its own question collection, or the failure
  \<^verbatim>\<open>"No questions found in this test"\<close> when that collection is empty, and the shared source has
  no influence on the result. When only the shared document exists, the same holds of the
  shared source. When neither exists the load fails with \<^verbatim>\<open>"Test not found"\<close>.
\<close>

theorem loadTest_first_source_wins:
  "(testSources eid tid =
      [([''educators'', eid, ''my_tests'', tid], [''educators'', eid, ''my_tests'', tid, ''questions'']),
       ([''test_series'', tid], [''test_series'', tid, ''questions''])])
   \<and> (False \<notin> set (net w) \<and> testDocs w [''educators'', eid, ''my_tests'', tid] = Some d1
      \<longrightarrow> fst (loadTest w eid tid) =
            (if questionDocs w [''educators'', eid, ''my_tests'', tid, ''questions''] = []
             then Inl (Failed ''No questions found in this test'')
             else Inr (metaOf tid d1, map (\<lambda>(i, q). mapQuestion i q)
                         (questionDocs w [''educators'', eid, ''my_tests'', tid, ''questions''])))
        \<and> fst (loadTest (w\<lparr>testDocs := (testDocs w)([''test_series'', tid] := x),
                            questionDocs := (questionDocs w)([''test_series'', tid, ''questions''] := y)\<rparr>)
                 eid tid)
            = fst (loadTest w eid tid))
   \<and> (False \<notin> set (net w2) \<and> testDocs w2 [''educators'', eid, ''my_tests'', tid] = None
        \<and> testDocs w2 [''test_series'', tid] = Some d2
      \<longrightarrow> fst (loadTest w2 eid tid) =
            (if questionDocs w2 [''test_series'', tid, ''questions''] = []
             then Inl (Failed ''No questions found in this test'')
             else Inr (metaOf tid d2, map (\<lambda>(i, q). mapQuestion i q)
                         (questionDocs w2 [''test_series'', tid, ''questions'']))))
   \<and> (False \<notin> set (net w3) \<and> testDocs w3 [''educators'', eid, ''my_tests'', tid] = None
        \<and> testDocs w3 [''test_series'', tid] = None
      \<longrightarrow> fst (loadTest w3 eid tid) = Inl (Failed ''Test not found''))"
proof -
  let ?w' = "w\<lparr>testDocs := (testDocs w)([''test_series'', tid] := x),
               questionDocs := (questionDocs w)([''test_series'', tid, ''questions''] := y)\<rparr>"
  have a: "False \<notin> set (net w) \<and> testDocs w [''educators'', eid, ''my_tests'', tid] = Some d1
      \<longrightarrow> fst (loadTest w eid tid) =
            (if questionDocs w [''educators'', eid, ''my_tests'', tid, ''questions''] = []
             then Inl (Failed ''No questions found in this test'')
             else Inr (metaOf tid d1, map (\<lambda>(i, q). mapQuestion i q)
                         (questionDocs w [''educators'', eid, ''my_tests'', tid, ''questions''])))
        \<and> fst (loadTest ?w' eid tid) = fst (loadTest w eid tid)"
  proof
    assume h: "False \<notin> set (net w) \<and> testDocs w [''educators'', eid, ''my_tests'', tid] = Some d1"
    have h': "False \<notin> set (net ?w')" "testDocs ?w' [''educators'', eid, ''my_tests'', tid] = Some d1"
      using h by simp_all
    show "fst (loadTest w eid tid) =
            (if questionDocs w [''educators'', eid, ''my_tests'', tid, ''questions''] = []
             then Inl (Failed ''No questions found in this test'')
             else Inr (metaOf tid d1, map (\<lambda>(i, q). mapQuestion i q)
                         (questionDocs w [''educators'', eid, ''my_tests'', tid, ''questions''])))
        \<and> fst (loadTest ?w' eid tid) = fst (loadTest w eid tid)"
      using loadTest_owned [of w eid tid d1] h loadTest_owned [OF h'] by simp
  qed
  show ?thesis
    using a loadTest_series [of w2 eid tid d2] loadTest_missing [of w3 eid tid]
    by (simp add: testSources_def)
qed


lemma ex_loads:
  "False \<notin> set (net example_world_series)" "False \<notin> set (net example_world_owned)"
  "False \<notin> set (net example_world)"
  "testDocs example_world_owned [''educators'', ''e1'', ''my_tests'', ''t1''] = Some example_test_data"
  "testDocs example_world_series [''educators'', ''e1'', ''my_tests'', ''t1''] = None"
  "testDocs example_world_series [''test_series'', ''t1''] = Some example_test_data"
  "testDocs example_world [''educators'', ''e1'', ''my_tests'', ''t1''] = None"
  "testDocs example_world [''test_series'', ''t1''] = None"
  "questionDocs example_world_owned [''educators'', ''e1'', ''my_tests'', ''t1'', ''questions''] = []"
  "questionDocs example_world_series [''test_series'', ''t1'', ''questions''] = [(''q1'', example_question_data)]"
  by (simp_all add: example_world_series_def example_world_owned_def example_world_def)

theorem loadTest_first_source_wins_witness:
  "fst (loadTest example_world_owned ''e1'' ''t1'') = Inl (Failed ''No questions found in this test'')
   \<and> fst (loadTest example_world_series ''e1'' ''t1'')
       = Inr (metaOf ''t1'' example_test_data, [mapQuestion ''q1'' example_question_data])
   \<and> fst (loadTest example_world ''e1'' ''t1'') = Inl (Failed ''Test not found'')"
  using loadTest_first_source_wins [where eid = "''e1''" and tid = "''t1''"
      and w = example_world_owned and ?d1.0 = example_test_data and x = None and y = "[]"
      and ?w2.0 = example_world_series and ?d2.0 = example_test_data and ?w3.0 = example_world]
    ex_loads
  by simp

section \<open>Properties of redemption\<close>

lemma userMessage_values:
  "userMessage ''Invalid code'' = ''Invalid access code.''"
  "userMessage ''Code does not match this test'' = ''This code is for a different test.''"
  "userMessage ''Code exhausted'' = ''This code has reached its maximum uses.''"
  "userMessage ''Code expired'' = ''This code is expired.''"
  by (simp_all add: userMessage_def includesStr_def sublist_Cons_right)

lemma example_codeUpper: "toUpperCase (trim '' free '') = ''FREE''"
  by code_simp

lemma redeemTransaction_error:
  "redeemTransaction nowMs uid eid tid slug code db = Inl e \<longleftrightarrow>
    (case accessCodes db (eid, code) of
       None \<Rightarrow> e = ''Invalid code''
     | Some cd \<Rightarrow>
        (if orStr (testSeriesId cd) [] = [] \<or> orStr (testSeriesId cd) [] \<noteq> tid
         then e = ''Code does not match this test''
         else if safeNumber (maxUses cd) 0 > 0 \<and> safeNumber (usesUsed cd) 0 \<ge> safeNumber (maxUses cd) 0
         then e = ''Code exhausted''
         else if isExpired nowMs (expiresAt cd) then e = ''Code expired''
         else False))"
  by (auto simp: redeemTransaction_def Let_def split: option.splits)

lemma bound_to: "(orStr v [] = [] \<or> orStr v [] \<noteq> tid) \<longleftrightarrow> \<not> (v = Some tid \<and> tid \<noteq> [])"
  by (auto simp: orStr_def split: option.splits)

text \<open>
  Claim C5. The transaction fails with its own error for each failure condition, in this
  order: \<^verbatim>\<open>"Invalid code"\<close> exactly when the code document is missing;
  \<^verbatim>\<open>"Code does not match this test"\<close> exactly when the code exists and its test id is absent,
  empty or another test's; \<^verbatim>\<open>"Code exhausted"\<close> exactly when it is bound to the test and its usage
  counter is at or above a positive cap; \<^verbatim>\<open>"Code expired"\<close> exactly when it is bound, not
  exhausted, and its expiry lies in the past. It fails in no other way, and succeeds exactly
  on a valid code. The four errors are distinct and are shown as four distinct messages. On
  every failure \<open>redeemCode\<close> leaves the store as it was: no unlock record, no change of the
  counter. A code bound to \<open>testX\<close> redeemed against another test \<open>testY\<close> fails with the
  does-not-match error.
\<close>

theorem redeem_failures_distinct_and_pure:
  "(redeemTransaction nowMs uid eid tid slug code db = Inl ''Invalid code''
       \<longleftrightarrow> accessCodes db (eid, code) = None)
   \<and> (accessCodes db (eid, code) = Some cd \<longrightarrow>
        (redeemTransaction nowMs uid eid tid slug code db = Inl ''Code does not match this test''
           \<longleftrightarrow> \<not> (testSeriesId cd = Some tid \<and> tid \<noteq> []))
      \<and> (redeemTransaction nowMs uid eid tid slug code db = Inl ''Code exhausted''
           \<longleftrightarrow> testSeriesId cd = Some tid \<and> tid \<noteq> []
               \<and> safeNumber (maxUses cd) 0 > 0
               \<and> safeNumber (usesUsed cd) 0 \<ge> safeNumber (maxUses cd) 0)
      \<and> (redeemTransaction nowMs uid eid tid slug code db = Inl ''Code expired''
           \<longleftrightarrow> testSeriesId cd = Some tid \<and> tid \<noteq> []
               \<and> \<not> (safeNumber (maxUses cd) 0 > 0
                     \<and> safeNumber (usesUsed cd) 0 \<ge> safeNumber (maxUses cd) 0)
               \<and> (\<exists>t. expiresAt cd = Some t \<and> t < nowMs)))
   \<and> (redeemTransaction nowMs uid eid tid slug code db = Inl e \<longrightarrow>
        e \<in> {''Invalid code'', ''Code does not match this test'', ''Code exhausted'', ''Code expired''})
   \<and> ((\<exists>db'. redeemTransaction nowMs uid eid tid slug code db = Inr db')
        \<longleftrightarrow> spec_validCode nowMs eid tid code db)
   \<and> distinct [''Invalid code'', ''Code does not match this test'', ''Code exhausted'', ''Code expired'']
   \<and> userMessage ''Invalid code'' = ''Invalid access code.''
   \<and> userMessage ''Code does not match this test'' = ''This code is for a different test.''
   \<and> userMessage ''Code exhausted'' = ''This code has reached its maximum uses.''
   \<and> userMessage ''Code expired'' = ''This code is expired.''
   \<and> distinct [''Invalid access code.'', ''This code is for a different test.'',
                ''This code has reached its maximum uses.'', ''This code is expired.'']
   \<and> (p_firebaseUser p = Some uid \<and> uid \<noteq> [] \<and> p_educatorId p = Some eid \<and> eid \<noteq> []
        \<and> p_testId p = Some tid \<and> tid \<noteq> [] \<and> toUpperCase (trim (accessCode p)) = code
        \<and> code \<noteq> []
        \<and> redeemTransaction nowMs uid eid tid (p_tenantSlug p) code db = Inl e
      \<longrightarrow> redeemCode nowMs True (p, db)
            = (p\<lparr>redeeming := False, p_toasts := p_toasts p @ [userMessage e]\<rparr>, db))
   \<and> (accessCodes db (eid, code) = Some cd \<and> testSeriesId cd = Some testX \<and> testX \<noteq> testY
      \<longrightarrow> redeemTransaction nowMs uid eid testY slug code db = Inl ''Code does not match this test'')"
proof -
  have m: "accessCodes db (eid, code) = Some cd \<and> testSeriesId cd = Some testX \<and> testX \<noteq> testY
      \<longrightarrow> redeemTransaction nowMs uid eid testY slug code db = Inl ''Code does not match this test''"
    by (auto simp: redeemTransaction_error bound_to)
  have w: "p_firebaseUser p = Some uid \<and> uid \<noteq> [] \<and> p_educatorId p = Some eid \<and> eid \<noteq> []
        \<and> p_testId p = Some tid \<and> tid \<noteq> [] \<and> toUpperCase (trim (accessCode p)) = code
        \<and> code \<noteq> []
        \<and> redeemTransaction nowMs uid eid tid (p_tenantSlug p) code db = Inl e
      \<longrightarrow> redeemCode nowMs True (p, db)
            = (p\<lparr>redeeming := False, p_toasts := p_toasts p @ [userMessage e]\<rparr>, db)"
    by (auto simp: redeemCode_def Let_def)
  have e: "redeemTransaction nowMs uid eid tid slug code db = Inl e \<longrightarrow>
        e \<in> {''Invalid code'', ''Code does not match this test'', ''Code exhausted'', ''Code expired''}"
    by (auto simp: redeemTransaction_error split: option.splits if_splits)
  have ok: "(\<exists>db'. redeemTransaction nowMs uid eid tid slug code db = Inr db')
        \<longleftrightarrow> spec_validCode nowMs eid tid code db"
    by (auto simp: redeemTransaction_def spec_validCode_def Let_def bound_to split: option.splits)
  have c: "accessCodes db (eid, code) = Some cd \<longrightarrow>
        (redeemTransaction nowMs uid eid tid slug code db = Inl ''Code does not match this test''
           \<longleftrightarrow> \<not> (testSeriesId cd = Some tid \<and> tid \<noteq> []))
      \<and> (redeemTransaction nowMs uid eid tid slug code db = Inl ''Code exhausted''
           \<longleftrightarrow> testSeriesId cd = Some tid \<and> tid \<noteq> []
               \<and> safeNumber (maxUses cd) 0 > 0
               \<and> safeNumber (usesUsed cd) 0 \<ge> safeNumber (maxUses cd) 0)
      \<and> (redeemTransaction nowMs uid eid tid slug code db = Inl ''Code expired''
           \<longleftrightarrow> testSeriesId cd = Some tid \<and> tid \<noteq> []
               \<and> \<not> (safeNumber (maxUses cd) 0 > 0
                     \<and> safeNumber (usesUsed cd) 0 \<ge> safeNumber (maxUses cd) 0)
               \<and> (\<exists>t. expiresAt cd = Some t \<and> t < nowMs))"
    by (auto simp: redeemTransaction_error bound_to isExpired_def split: option.splits)
  have i: "redeemTransaction nowMs uid eid tid slug code db = Inl ''Invalid code''
       \<longleftrightarrow> accessCodes db (eid, code) = None"
    by (auto simp: redeemTransaction_error split: option.splits)
  show ?thesis
    using m w e ok c i userMessage_values by simp
qed

lemma example_store_facts:
  "accessCodes example_store (''e1'', ''FREE'')
     = Some \<lparr>testSeriesId = Some ''tX'', maxUses = None, usesUsed = None,
              expiresAt = Some 5000, lastUsedAt = None\<rparr>"
  "accessCodes example_store (''e1'', ''ONCE'')
     = Some \<lparr>testSeriesId = Some ''tX'', maxUses = Some 1, usesUsed = Some 0,
              expiresAt = None, lastUsedAt = None\<rparr>"
  "accessCodes example_store (''e1'', ''NONE'') = None"
  "testUnlocks example_store k = None"
  by (simp_all add: example_store_def)

theorem redeem_failures_distinct_and_pure_witness:
  "redeemCode 1000 True (example_page, example_store)
     = (example_page\<lparr>redeeming := False, p_toasts := [''This code is for a different test.'']\<rparr>,
        example_store)
   \<and> redeemTransaction 1000 ''u1'' ''e1'' ''tY'' None ''FREE'' example_store
       = Inl ''Code does not match this test''
   \<and> redeemTransaction 9000 ''u1'' ''e1'' ''tX'' None ''FREE'' example_store = Inl ''Code expired''
   \<and> redeemTransaction 1000 ''u1'' ''e1'' ''tX'' None ''NONE'' example_store = Inl ''Invalid code''"
proof -
  let ?free = "\<lparr>testSeriesId = Some ''tX'', maxUses = None, usesUsed = None,
                 expiresAt = Some 5000, lastUsedAt = None\<rparr>"
  note T1 = redeem_failures_distinct_and_pure [where nowMs = 1000 and uid = "''u1''" and eid = "''e1''"
      and tid = "''tY''" and slug = None and code = "''FREE''" and db = example_store
      and cd = ?free and e = "''Code does not match this test''" and p = example_page
      and testX = "''tX''" and testY = "''tY''"]
  note T2 = redeem_failures_distinct_and_pure [where nowMs = 9000 and uid = "''u1''" and eid = "''e1''"
      and tid = "''tX''" and slug = None and code = "''FREE''" and db = example_store
      and cd = ?free]
  note T3 = redeem_failures_distinct_and_pure [where nowMs = 1000 and uid = "''u1''" and eid = "''e1''"
      and tid = "''tX''" and slug = None and code = "''NONE''" and db = example_store]
  have a: "redeemTransaction 1000 ''u1'' ''e1'' ''tY'' None ''FREE'' example_store
       = Inl ''Code does not match this test''"
    using T1 example_store_facts(1) by simp
  have pg: "p_firebaseUser example_page = Some ''u1''" "p_educatorId example_page = Some ''e1''"
      "p_testId example_page = Some ''tY''" "p_tenantSlug example_page = None"
      "toUpperCase (trim (accessCode example_page)) = ''FREE''" "p_toasts example_page = []"
    by (simp_all add: example_page_def example_codeUpper)
  have b: "redeemCode 1000 True (example_page, example_store)
     = (example_page\<lparr>redeeming := False, p_toasts := [''This code is for a different test.'']\<rparr>,
        example_store)"
    using T1 a pg by simp
  have c: "redeemTransaction 9000 ''u1'' ''e1'' ''tX'' None ''FREE'' example_store = Inl ''Code expired''"
    using T2 example_store_facts(1) by (simp add: safeNumber_def)
  have d: "redeemTransaction 1000 ''u1'' ''e1'' ''tX'' None ''NONE'' example_store = Inl ''Invalid code''"
    using T3 example_store_facts(3) by simp
  show ?thesis using a b c d by blast
qed

lemma redeemTransaction_again:
  "testUnlocks db (unlockIdOf uid eid tid) \<noteq> None \<Longrightarrow>
   redeemTransaction nowMs uid eid tid slug code db = Inr db' \<Longrightarrow> db' = db"
  by (auto simp: redeemTransaction_def Let_def split: option.splits if_splits)

lemma redeemTransaction_valid:
  "(\<exists>db'. redeemTransaction nowMs uid eid tid slug code db = Inr db')
     \<longleftrightarrow> spec_validCode nowMs eid tid code db"
  by (auto simp: redeemTransaction_def spec_validCode_def Let_def bound_to split: option.splits)

lemma redeemTransaction_first:
  "redeemTransaction nowMs uid eid tid slug code db = Inr db1 \<Longrightarrow>
   testUnlocks db1 (unlockIdOf uid eid tid) \<noteq> None
   \<and> usesOf db1 eid code = usesOf db eid code
        + (if testUnlocks db (unlockIdOf uid eid tid) = None then 1 else 0)
   \<and> (\<forall>k. k \<noteq> unlockIdOf uid eid tid \<longrightarrow> testUnlocks db1 k = testUnlocks db k)
   \<and> (testUnlocks db (unlockIdOf uid eid tid) \<noteq> None \<longrightarrow> db1 = db)"
  by (auto simp: redeemTransaction_def Let_def usesOf_def safeNumber_def
        split: option.splits if_splits)

text \<open>
  Claim C4, as amended. Redemption is idempotent per student, educator and test in its
  effect on the store. When the unlock record at the deterministic id already exists, a run
  of the transaction that succeeds changes nothing, and it succeeds when the code is valid
  at that time. After a first successful redemption the unlock record exists and the usage
  counter has grown by at most one; a second run for the same triple then creates no unlock
  record and does not touch the counter: it returns successfully exactly when the code is
  still valid, and otherwise fails with \<^verbatim>\<open>"Code exhausted"\<close> or \<^verbatim>\<open>"Code expired"\<close>. So two
  redemptions increment the counter at most once.
\<close>

theorem redeem_again_changes_nothing:
  "(spec_validCode nowMs eid tid code db \<and> testUnlocks db (unlockIdOf uid eid tid) \<noteq> None
      \<longrightarrow> redeemTransaction nowMs uid eid tid slug code db = Inr db)
   \<and> (testUnlocks db (unlockIdOf uid eid tid) \<noteq> None
        \<and> redeemTransaction nowMs uid eid tid slug code db = Inr db'
      \<longrightarrow> db' = db)
   \<and> (redeemTransaction t1 uid eid tid slug code d0 = Inr d1
      \<longrightarrow> testUnlocks d1 (unlockIdOf uid eid tid) \<noteq> None
        \<and> usesOf d1 eid code \<le> usesOf d0 eid code + 1
        \<and> (redeemTransaction t2 uid eid tid slug code d1 = Inr d2 \<longrightarrow> d2 = d1)
        \<and> (redeemTransaction t2 uid eid tid slug code d1 = Inl e
              \<longrightarrow> e = ''Code exhausted'' \<or> e = ''Code expired'')
        \<and> (redeemTransaction t2 uid eid tid slug code d1 = Inr d1
              \<longleftrightarrow> spec_validCode t2 eid tid code d1))"
proof -
  have a: "spec_validCode nowMs eid tid code db \<and> testUnlocks db (unlockIdOf uid eid tid) \<noteq> None
      \<longrightarrow> redeemTransaction nowMs uid eid tid slug code db = Inr db"
    using redeemTransaction_valid [of nowMs uid eid tid slug code db]
      redeemTransaction_again [of db uid eid tid nowMs slug code] by blast
  have b: "testUnlocks db (unlockIdOf uid eid tid) \<noteq> None
        \<and> redeemTransaction nowMs uid eid tid slug code db = Inr db' \<longrightarrow> db' = db"
    using redeemTransaction_again by blast
  have c: "redeemTransaction t1 uid eid tid slug code d0 = Inr d1
      \<longrightarrow> testUnlocks d1 (unlockIdOf uid eid tid) \<noteq> None
        \<and> usesOf d1 eid code \<le> usesOf d0 eid code + 1
        \<and> (redeemTransaction t2 uid eid tid slug code d1 = Inr d2 \<longrightarrow> d2 = d1)
        \<and> (redeemTransaction t2 uid eid tid slug code d1 = Inl e
              \<longrightarrow> e = ''Code exhausted'' \<or> e = ''Code expired'')
        \<and> (redeemTransaction t2 uid eid tid slug code d1 = Inr d1
              \<longleftrightarrow> spec_validCode t2 eid tid code d1)"
  proof
    assume r: "redeemTransaction t1 uid eid tid slug code d0 = Inr d1"
    note f = redeemTransaction_first [OF r]
    have u: "testUnlocks d1 (unlockIdOf uid eid tid) \<noteq> None" using f by blast
    have le: "usesOf d1 eid code \<le> usesOf d0 eid code + 1" using f by (auto split: if_splits)
    have again: "redeemTransaction t2 uid eid tid slug code d1 = Inr d2 \<longrightarrow> d2 = d1"
      using redeemTransaction_again [OF u] by blast
    have bound: "\<exists>cd. accessCodes d1 (eid, code) = Some cd \<and> testSeriesId cd = Some tid \<and> tid \<noteq> []"
      using r by (auto simp: redeemTransaction_def Let_def bound_to split: option.splits if_splits)
    have err: "redeemTransaction t2 uid eid tid slug code d1 = Inl e
              \<longrightarrow> e = ''Code exhausted'' \<or> e = ''Code expired''"
      using bound by (auto simp: redeemTransaction_error bound_to split: if_splits)
    have v: "redeemTransaction t2 uid eid tid slug code d1 = Inr d1
              \<longleftrightarrow> spec_validCode t2 eid tid code d1"
      using redeemTransaction_valid [of t2 uid eid tid slug code d1]
        redeemTransaction_again [OF u] by blast
    show "testUnlocks d1 (unlockIdOf uid eid tid) \<noteq> None
        \<and> usesOf d1 eid code \<le> usesOf d0 eid code + 1
        \<and> (redeemTransaction t2 uid eid tid slug code d1 = Inr d2 \<longrightarrow> d2 = d1)
        \<and> (redeemTransaction t2 uid eid tid slug code d1 = Inl e
              \<longrightarrow> e = ''Code exhausted'' \<or> e = ''Code expired'')
        \<and> (redeemTransaction t2 uid eid tid slug code d1 = Inr d1
              \<longleftrightarrow> spec_validCode t2 eid tid code d1)"
      using u le again err v by blast
  qed
  show ?thesis using a b c by blast
qed

lemma example_first_redemption:
  "redeemTransaction 1000 ''u1'' ''e1'' ''tX'' None ''ONCE'' example_store = Inr example_store_redeemed"
  by (simp add: redeemTransaction_def example_store_def example_store_redeemed_def orStr_def
        safeNumber_def isExpired_def Let_def)

text \<open>
  The claim as first stated has the second run return successfully for every valid code. A
  single-use code is valid, its first redemption succeeds and creates the unlock record, and
  the second run for the same student and test fails with \<^verbatim>\<open>"Code exhausted"\<close>: the cap is
  checked before the unlock record is looked up.
\<close>

theorem redeem_again_counterexample:
  "spec_validCode 1000 ''e1'' ''tX'' ''ONCE'' example_store
   \<and> redeemTransaction 1000 ''u1'' ''e1'' ''tX'' None ''ONCE'' example_store
       = Inr example_store_redeemed
   \<and> testUnlocks example_store_redeemed (unlockIdOf ''u1'' ''e1'' ''tX'') \<noteq> None
   \<and> redeemTransaction 1000 ''u1'' ''e1'' ''tX'' None ''ONCE'' example_store_redeemed
       = Inl ''Code exhausted''"
  by (simp add: example_first_redemption)
     (simp add: redeemTransaction_def example_store_def example_store_redeemed_def orStr_def
        safeNumber_def isExpired_def Let_def spec_validCode_def)

lemma example_free_redemption:
  "redeemTransaction 1000 ''u1'' ''e1'' ''tX'' None ''FREE'' example_store
     = Inr example_store_free_redeemed"
  by (simp add: redeemTransaction_def example_store_def example_store_free_redeemed_def orStr_def
        safeNumber_def isExpired_def Let_def)

theorem redeem_again_changes_nothing_witness:
  "redeemTransaction 2000 ''u1'' ''e1'' ''tX'' None ''FREE'' example_store_free_redeemed
     = Inr example_store_free_redeemed
   \<and> usesOf example_store_free_redeemed ''e1'' ''FREE'' \<le> usesOf example_store ''e1'' ''FREE'' + 1
   \<and> usesOf example_store_redeemed ''e1'' ''ONCE'' \<le> usesOf example_store ''e1'' ''ONCE'' + 1
   \<and> testUnlocks example_store_redeemed (unlockIdOf ''u1'' ''e1'' ''tX'') \<noteq> None
   \<and> \<not> spec_validCode 2000 ''e1'' ''tX'' ''ONCE'' example_store_redeemed
   \<and> redeemTransaction 2000 ''u1'' ''e1'' ''tX'' None ''ONCE'' example_store_redeemed
        \<noteq> Inr example_store_redeemed"
proof -
  have v: "spec_validCode 2000 ''e1'' ''tX'' ''FREE'' example_store_free_redeemed
        \<and> testUnlocks example_store_free_redeemed (unlockIdOf ''u1'' ''e1'' ''tX'') \<noteq> None"
    by (simp add: spec_validCode_def example_store_free_redeemed_def example_store_def
          safeNumber_def isExpired_def)
  have nv: "\<not> spec_validCode 2000 ''e1'' ''tX'' ''ONCE'' example_store_redeemed"
    by (simp add: spec_validCode_def example_store_redeemed_def example_store_def safeNumber_def)
  note F = redeem_again_changes_nothing [where nowMs = 2000 and ?t1.0 = 1000 and ?t2.0 = 2000
      and uid = "''u1''" and eid = "''e1''" and tid = "''tX''" and slug = None and code = "''FREE''"
      and db = example_store_free_redeemed and ?d0.0 = example_store
      and ?d1.0 = example_store_free_redeemed]
  note O = redeem_again_changes_nothing [where ?t1.0 = 1000 and ?t2.0 = 2000 and uid = "''u1''"
      and eid = "''e1''" and tid = "''tX''" and slug = None and code = "''ONCE''"
      and ?d0.0 = example_store and ?d1.0 = example_store_redeemed]
  have a: "redeemTransaction 2000 ''u1'' ''e1'' ''tX'' None ''FREE'' example_store_free_redeemed
     = Inr example_store_free_redeemed"
    using F v by blast
  have b: "usesOf example_store_free_redeemed ''e1'' ''FREE'' \<le> usesOf example_store ''e1'' ''FREE'' + 1"
    using F example_free_redemption by blast
  have c: "usesOf example_store_redeemed ''e1'' ''ONCE'' \<le> usesOf example_store ''e1'' ''ONCE'' + 1
     \<and> testUnlocks example_store_redeemed (unlockIdOf ''u1'' ''e1'' ''tX'') \<noteq> None"
    using O example_first_redemption by blast
  have d: "redeemTransaction 2000 ''u1'' ''e1'' ''tX'' None ''ONCE'' example_store_redeemed
        \<noteq> Inr example_store_redeemed"
    using O example_first_redemption nv by blast
  show ?thesis using a b c d nv by blast
qed

section \<open>Properties of the rankings\<close>























end
